theory Spec2Isabelle
  imports Main "HOL-Library.Word"
begin

section \<open>Strings of the host language\<close>

text \<open>
  A JavaScript string is a sequence of UTF-16 code units; \<open>length\<close>, \<open>slice\<close> and
  \<open>trim\<close> all work on code units.  A string is truthy exactly when it is not empty.
\<close>

type_synonym jsstring = "16 word list"

definition js :: "string \<Rightarrow> jsstring" where
  "js s = map (\<lambda>c. of_nat (of_char c)) s"

text \<open>
  \<open>String.prototype.trim\<close> removes the WhiteSpace and LineTerminator code points of
  ECMAScript from both ends: TAB, LF, VT, FF, CR, SPACE, NBSP, U+1680, U+2000..U+200A,
  U+2028, U+2029, U+202F, U+205F, U+3000 and U+FEFF.
\<close>

definition isWhiteSpace :: "16 word \<Rightarrow> bool" where
  "isWhiteSpace c \<longleftrightarrow>
     c = 0x0009 \<or> c = 0x000A \<or> c = 0x000B \<or> c = 0x000C \<or> c = 0x000D \<or> c = 0x0020 \<or>
     c = 0x00A0 \<or> c = 0x1680 \<or>
     c = 0x2000 \<or> c = 0x2001 \<or> c = 0x2002 \<or> c = 0x2003 \<or> c = 0x2004 \<or> c = 0x2005 \<or>
     c = 0x2006 \<or> c = 0x2007 \<or> c = 0x2008 \<or> c = 0x2009 \<or> c = 0x200A \<or>
     c = 0x2028 \<or> c = 0x2029 \<or> c = 0x202F \<or> c = 0x205F \<or> c = 0x3000 \<or> c = 0xFEFF"

definition trim :: "jsstring \<Rightarrow> jsstring" where
  "trim s = rev (dropWhile isWhiteSpace (rev (dropWhile isWhiteSpace s)))"

section \<open>Data model (bluesky.ts, main.ts)\<close>

text \<open>A thrown \<open>Error\<close> is a value carrying its message.\<close>

datatype error = Error jsstring

fun message :: "error \<Rightarrow> jsstring" where
  "message (Error m) = m"

text \<open>The reference \<open>{uri, cid}\<close> returned by the remote service for a stored record.\<close>

record ref =
  uri :: jsstring
  cid :: jsstring

text \<open>
  \<open>ThreadPost.reply\<close>.  The source writes \<open>root: rootPost!\<close>: the non-null assertion
  is erased at run time, so the root is whatever \<open>rootPost\<close> holds, \<open>null\<close> included.
\<close>

record reply_link =
  root :: "ref option"
  parent :: ref

text \<open>
  The record handed to the remote service.  \<open>createPost\<close> sends \<open>{text, createdAt}\<close>,
  \<open>createThread\<close> sends \<open>{text, reply, facets}\<close>; a field that the call leaves out is
  \<open>None\<close>.  The value of \<open>rt.facets\<close> is opaque to this code (type \<open>'f\<close>).
\<close>

record 'f feed_post =
  post_text :: jsstring
  createdAt :: "jsstring option"
  reply :: "reply_link option"
  facets :: "'f option"

text \<open>\<open>BlueskyPluginSettings\<close> of main.ts.\<close>

record settings =
  blueskyIdentifier :: jsstring
  blueskyAppPassword :: jsstring

definition INITIAL_BLUESKY_SETTINGS :: settings where
  "INITIAL_BLUESKY_SETTINGS = \<lparr>blueskyIdentifier = [], blueskyAppPassword = []\<rparr>"

section \<open>Effects\<close>

text \<open>
  Everything the code does to the outside is an event, appended to a trace in the order
  in which it happens: notifications shown to the user, console output, and the calls
  to the remote service (through the agent), each with its outcome.
\<close>

datatype 'f event =
    Notice jsstring
  | ConsoleError jsstring error
  | AgentLogin jsstring jsstring "error + unit"
  | DetectFacets jsstring "error + 'f"
  | CreateRecord jsstring jsstring "'f feed_post" "error + ref"
  | AgentPost "'f feed_post" "error + ref"

text \<open>
  The collaborators are parameters.  Each answer may depend on the whole trace so far,
  so any sequence of successes and failures of the remote service is covered.
  \<open>authenticate\<close> also yields what \<open>agent.session?.did\<close> holds after the call (the
  agent library maintains the session, not this code); \<open>now\<close> is
  \<open>new Date().toISOString()\<close>.
\<close>

record 'f remote =
  authenticate :: "'f event list \<Rightarrow> jsstring \<Rightarrow> jsstring \<Rightarrow> (error + unit) \<times> jsstring option"
  detectFacets :: "'f event list \<Rightarrow> jsstring \<Rightarrow> error + 'f"
  createRecord :: "'f event list \<Rightarrow> jsstring \<Rightarrow> jsstring \<Rightarrow> 'f feed_post \<Rightarrow> error + ref"
  post :: "'f event list \<Rightarrow> 'f feed_post \<Rightarrow> error + ref"
  now :: "'f event list \<Rightarrow> jsstring"

text \<open>The plugin's settings (shared with every bot) and the trace.\<close>

record 'f world =
  plugin_settings :: settings
  trace :: "'f event list"

definition emit :: "'f event \<Rightarrow> 'f world \<Rightarrow> 'f world" where
  "emit ev w = w\<lparr>trace := trace w @ [ev]\<rparr>"

text \<open>
  A \<open>BlueskyBot\<close> owns one agent; of the agent this code reads only
  \<open>session?.did\<close>, \<open>None\<close> while the agent has no session.
\<close>

record bot =
  session_did :: "jsstring option"

definition new_BlueskyBot :: bot where
  "new_BlueskyBot = \<lparr>session_did = None\<rparr>"

section \<open>BlueskyBot (bluesky.ts)\<close>

definition login :: "'f remote \<Rightarrow> bot \<Rightarrow> 'f world \<Rightarrow> (error + unit) \<times> bot \<times> 'f world" where
  "login env b w =
     (let ident = blueskyIdentifier (plugin_settings w);
          pw = blueskyAppPassword (plugin_settings w)
      in if ident = [] \<or> pw = [] then
           let w1 = emit (Notice (js ''Not logged in. Go to the Bluesky plugin settings to login.'')) w;
               e = Error (js ''Missing Bluesky credentials - please configure them in settings'')
           in (Inl e, b, emit (ConsoleError (js ''Failed to login:'') e) w1)
         else
           (case authenticate env (trace w) ident pw of
              (Inl e, s) \<Rightarrow>
                (Inl e, b\<lparr>session_did := s\<rparr>,
                 emit (ConsoleError (js ''Failed to login:'') e) (emit (AgentLogin ident pw (Inl e)) w))
            | (Inr u, s) \<Rightarrow>
                (Inr (), b\<lparr>session_did := s\<rparr>, emit (AgentLogin ident pw (Inr u)) w)))"

text \<open>The \<open>catch\<close> block of \<open>createPost\<close>: log, notify, rethrow.\<close>

definition createPost_catch :: "error \<Rightarrow> 'f world \<Rightarrow> (error + unit) \<times> 'f world" where
  "createPost_catch e w =
     (Inl e, emit (Notice (js ''Failed to post: '' @ message e))
               (emit (ConsoleError (js ''Failed to post:'') e) w))"

definition createPost :: "'f remote \<Rightarrow> bot \<Rightarrow> 'f world \<Rightarrow> jsstring \<Rightarrow> (error + unit) \<times> 'f world" where
  "createPost env b w txt =
     (case session_did b of
        None \<Rightarrow> createPost_catch (Error (js ''Not logged in'')) w
      | Some did \<Rightarrow>
          if did = [] then createPost_catch (Error (js ''Not logged in'')) w
          else
            let r = \<lparr>post_text = txt, createdAt = Some (now env (trace w)), reply = None, facets = None\<rparr>
            in (case createRecord env (trace w) did (js ''app.bsky.feed.post'') r of
                  Inl e \<Rightarrow>
                    createPost_catch e (emit (CreateRecord did (js ''app.bsky.feed.post'') r (Inl e)) w)
                | Inr res \<Rightarrow>
                    (Inr (), emit (Notice (js ''Successfully posted to Bluesky!''))
                               (emit (CreateRecord did (js ''app.bsky.feed.post'') r (Inr res)) w))))"

text \<open>
  The loop of \<open>createThread\<close> over the remaining texts, with its two variables
  \<open>lastPost\<close> and \<open>rootPost\<close>.  Neither \<open>detectFacets\<close> nor \<open>agent.post\<close> is inside a
  \<open>try\<close>: an error of either leaves the loop and the function at once.
  \<open>rt.text\<close> is the text the \<open>RichText\<close> was built from.
\<close>

fun createThread_loop ::
  "'f remote \<Rightarrow> ref option \<Rightarrow> ref option \<Rightarrow> 'f world \<Rightarrow> jsstring list \<Rightarrow> (error + unit) \<times> 'f world" where
  "createThread_loop env lastPost rootPost w [] = (Inr (), w)"
| "createThread_loop env lastPost rootPost w (txt # rest) =
     (case detectFacets env (trace w) txt of
        Inl e \<Rightarrow> (Inl e, emit (DetectFacets txt (Inl e)) w)
      | Inr fs \<Rightarrow>
          let w1 = emit (DetectFacets txt (Inr fs)) w;
              rp = (case lastPost of
                      None \<Rightarrow> None
                    | Some l \<Rightarrow> Some \<lparr>root = rootPost, parent = l\<rparr>);
              p = \<lparr>post_text = txt, createdAt = None, reply = rp, facets = Some fs\<rparr>
          in (case post env (trace w1) p of
                Inl e \<Rightarrow> (Inl e, emit (AgentPost p (Inl e)) w1)
              | Inr result \<Rightarrow>
                  let w2 = emit (AgentPost p (Inr result)) w1;
                      rootPost' = (case rootPost of
                                     None \<Rightarrow> Some \<lparr>uri = uri result, cid = cid result\<rparr>
                                   | Some r \<Rightarrow> Some r)
                  in createThread_loop env (Some \<lparr>uri = uri result, cid = cid result\<rparr>) rootPost' w2 rest))"

definition createThread :: "'f remote \<Rightarrow> 'f world \<Rightarrow> jsstring list \<Rightarrow> (error + unit) \<times> 'f world" where
  "createThread env w posts =
     (if posts = [] then (Inr (), w)
      else (case createThread_loop env None None w posts of
              (Inl e, w') \<Rightarrow> (Inl e, w')
            | (Inr u, w') \<Rightarrow> (Inr (), emit (Notice (js ''Successfully posted to Bluesky!'')) w')))"

text \<open>\<open>createBlueskyPost\<close>: a fresh bot, \<open>login\<close>, then \<open>createPost\<close>.\<close>

definition createBlueskyPost :: "'f remote \<Rightarrow> 'f world \<Rightarrow> jsstring \<Rightarrow> (error + unit) \<times> 'f world" where
  "createBlueskyPost env w txt =
     (case login env new_BlueskyBot w of
        (Inl e, b, w1) \<Rightarrow> (Inl e, emit (ConsoleError (js ''Error posting to Bluesky:'') e) w1)
      | (Inr u, b, w1) \<Rightarrow>
          (case createPost env b w1 txt of
             (Inl e, w2) \<Rightarrow> (Inl e, emit (ConsoleError (js ''Error posting to Bluesky:'') e) w2)
           | (Inr u', w2) \<Rightarrow> (Inr (), w2)))"

section \<open>BlueskyTab (views/BlueskyTab.ts)\<close>

text \<open>
  \<open>posts\<close> is a JavaScript array of strings.  Writing beyond its end extends it and
  leaves holes, which \<open>filter\<close> skips; a hole is \<open>None\<close>.
\<close>

record tab =
  posts :: "jsstring option list"
  isPosting :: bool
  tab_bot :: bot

definition MAX_CHARS :: nat where
  "MAX_CHARS = 300"

definition new_BlueskyTab :: tab where
  "new_BlueskyTab = \<lparr>posts = [Some []], isPosting = False, tab_bot = new_BlueskyBot\<rparr>"

text \<open>\<open>a[i] = v\<close> on a JavaScript array.\<close>

definition array_set :: "'a option list \<Rightarrow> nat \<Rightarrow> 'a \<Rightarrow> 'a option list" where
  "array_set xs i v =
     (if i < length xs then xs[i := Some v]
      else xs @ replicate (i - length xs) None @ [Some v])"

text \<open>\<open>a.splice(i, 1)\<close> for \<open>i \<ge> 0\<close>.\<close>

definition splice1 :: "'a list \<Rightarrow> nat \<Rightarrow> 'a list" where
  "splice1 xs i = take i xs @ drop (Suc i) xs"

text \<open>\<open>handlePostChange(index, event)\<close>, where \<open>v\<close> is \<open>event.target.value\<close>.\<close>

definition handlePostChange :: "nat \<Rightarrow> jsstring \<Rightarrow> tab \<Rightarrow> tab" where
  "handlePostChange index v t =
     (let limitedText = take MAX_CHARS v
      in t\<lparr>posts := array_set (posts t) index limitedText\<rparr>)"

definition addPost :: "tab \<Rightarrow> tab" where
  "addPost t = t\<lparr>posts := posts t @ [Some []]\<rparr>"

definition removePost :: "nat \<Rightarrow> tab \<Rightarrow> tab" where
  "removePost index t =
     (if length (posts t) = 1 then t
      else t\<lparr>posts := splice1 (posts t) index\<rparr>)"

text \<open>\<open>this.posts.filter(post => post.trim())\<close>.\<close>

fun validPosts :: "jsstring option list \<Rightarrow> jsstring list" where
  "validPosts [] = []"
| "validPosts (None # ps) = validPosts ps"
| "validPosts (Some p # ps) = (if trim p \<noteq> [] then p # validPosts ps else validPosts ps)"

definition publishContent :: "'f remote \<Rightarrow> tab \<Rightarrow> 'f world \<Rightarrow> tab \<times> 'f world" where
  "publishContent env t w =
     (if isPosting t then (t, w)
      else (case validPosts (posts t) of
              [] \<Rightarrow> (t, w)
            | p # ps \<Rightarrow>
                (case login env (tab_bot t) w of
                   (Inl e, b, w1) \<Rightarrow>
                     (t\<lparr>isPosting := False, tab_bot := b\<rparr>,
                      emit (ConsoleError (js ''Failed to post:'') e) w1)
                 | (Inr u, b, w1) \<Rightarrow>
                     (case (if ps = [] then createPost env b w1 p
                            else createThread env w1 (p # ps)) of
                        (Inl e, w2) \<Rightarrow>
                          (t\<lparr>isPosting := False, tab_bot := b\<rparr>,
                           emit (ConsoleError (js ''Failed to post:'') e) w2)
                      | (Inr u', w2) \<Rightarrow>
                          (t\<lparr>posts := [Some []], isPosting := False, tab_bot := b\<rparr>, w2)))))"

section \<open>Reading a trace\<close>

text \<open>The events that a run from world \<open>w\<close> to world \<open>w'\<close> has added.\<close>

definition issued :: "'f world \<Rightarrow> 'f world \<Rightarrow> 'f event list" where
  "issued w w' = drop (length (trace w)) (trace w')"

text \<open>
  The submissions of records to the remote service found in a list of events, in order,
  each with its outcome; and the accepted ones, each with the reference returned.
\<close>

fun submissions :: "'f event list \<Rightarrow> ('f feed_post \<times> (error + ref)) list" where
  "submissions [] = []"
| "submissions (AgentPost p r # evs) = (p, r) # submissions evs"
| "submissions (CreateRecord d c p r # evs) = (p, r) # submissions evs"
| "submissions (ev # evs) = submissions evs"

fun accepted :: "('f feed_post \<times> (error + ref)) list \<Rightarrow> ('f feed_post \<times> ref) list" where
  "accepted [] = []"
| "accepted ((p, Inr r) # xs) = (p, r) # accepted xs"
| "accepted ((p, Inl e) # xs) = accepted xs"

fun notices :: "'f event list \<Rightarrow> jsstring list" where
  "notices [] = []"
| "notices (Notice m # evs) = m # notices evs"
| "notices (ev # evs) = notices evs"

fun logins :: "'f event list \<Rightarrow> (jsstring \<times> jsstring) list" where
  "logins [] = []"
| "logins (AgentLogin i p r # evs) = (i, p) # logins evs"
| "logins (ev # evs) = logins evs"

fun detections :: "'f event list \<Rightarrow> (jsstring \<times> (error + 'f)) list" where
  "detections [] = []"
| "detections (DetectFacets t r # evs) = (t, r) # detections evs"
| "detections (ev # evs) = detections evs"

text \<open>
  The events of one completed round of the loop of \<open>createThread\<close>: the detection of the
  facets of a text, then the accepted submission of its record.
\<close>

fun round_events :: "'f feed_post \<times> ref \<Rightarrow> 'f event list" where
  "round_events (p, x) =
     (case facets p of
        Some f \<Rightarrow> [DetectFacets (post_text p) (Inr f), AgentPost p (Inr x)]
      | None \<Rightarrow> [AgentPost p (Inr x)])"

text \<open>
  A list of accepted submissions is chained from \<open>lastPost\<close> and \<open>rootPost\<close> when each
  record replies to the one before it, under the root in force.
\<close>

fun chained :: "ref option \<Rightarrow> ref option \<Rightarrow> ('f feed_post \<times> ref) list \<Rightarrow> bool" where
  "chained l r [] = True"
| "chained l r ((p, x) # xs) =
     (reply p = (case l of None \<Rightarrow> None | Some y \<Rightarrow> Some \<lparr>root = r, parent = y\<rparr>) \<and>
      chained (Some x) (case r of None \<Rightarrow> Some x | Some y \<Rightarrow> Some y) xs)"

section \<open>publishContent as it runs (views/BlueskyTab.ts)\<close>

text \<open>
  \<open>publishContent\<close> is an \<open>async\<close> function: it is suspended at \<open>await this.bot.login()\<close>, at
  \<open>await this.bot.createPost(...)\<close> and, inside \<open>createThread\<close>, at \<open>await rt.detectFacets\<close>
  and \<open>await this.agent.post\<close> of every round of the loop.  While it is suspended the
  listeners of the editor run.  The function \<open>publishContent\<close> above is the whole of one
  activation when nothing runs in between; here is the same activation cut at its awaits.

  An activation that is suspended holds what its continuation needs: the valid posts
  (never empty: the first and the others) before the login; the text before the call of
  \<open>createPost\<close>; \<open>lastPost\<close>, \<open>rootPost\<close> and the texts still to publish at the head of
  the loop of \<open>createThread\<close>; the record built, \<open>rootPost\<close> and the texts that follow
  before \<open>agent.post\<close>.
\<close>

datatype 'f activation =
    AwaitLogin jsstring "jsstring list"
  | AwaitCreatePost jsstring
  | ThreadLoop "ref option" "ref option" "jsstring list"
  | AwaitAgentPost "'f feed_post" "ref option" "jsstring list"

text \<open>The click on "Post", up to the first await.\<close>

definition publishContent_begin :: "tab \<Rightarrow> tab \<times> 'f activation option" where
  "publishContent_begin t =
     (if isPosting t then (t, None)
      else (case validPosts (posts t) of
              [] \<Rightarrow> (t, None)
            | p # ps \<Rightarrow> (t\<lparr>isPosting := True\<rparr>, Some (AwaitLogin p ps))))"

text \<open>The two ends of an activation: \<open>catch\<close> then \<open>finally\<close>; \<open>this.posts = ['']\<close> then
  \<open>finally\<close>.\<close>

definition publishContent_failed ::
  "error \<Rightarrow> tab \<Rightarrow> 'f world \<Rightarrow> 'f activation option \<times> tab \<times> 'f world" where
  "publishContent_failed e t w =
     (None, t\<lparr>isPosting := False\<rparr>, emit (ConsoleError (js ''Failed to post:'') e) w)"

definition publishContent_done ::
  "tab \<Rightarrow> 'f world \<Rightarrow> 'f activation option \<times> tab \<times> 'f world" where
  "publishContent_done t w = (None, t\<lparr>posts := [Some []], isPosting := False\<rparr>, w)"

text \<open>
  The awaited call settles and the activation goes on, to its next await or to its end.
  It reads the tab as it is by then: the listeners may have changed \<open>posts\<close> meanwhile.
\<close>

fun publishContent_resume ::
  "'f remote \<Rightarrow> 'f activation \<Rightarrow> tab \<Rightarrow> 'f world \<Rightarrow> 'f activation option \<times> tab \<times> 'f world" where
  "publishContent_resume env (AwaitLogin p ps) t w =
     (case login env (tab_bot t) w of
        (Inl e, b, w1) \<Rightarrow> publishContent_failed e (t\<lparr>tab_bot := b\<rparr>) w1
      | (Inr u, b, w1) \<Rightarrow>
          (Some (if ps = [] then AwaitCreatePost p else ThreadLoop None None (p # ps)),
           t\<lparr>tab_bot := b\<rparr>, w1))"
| "publishContent_resume env (AwaitCreatePost p) t w =
     (case createPost env (tab_bot t) w p of
        (Inl e, w2) \<Rightarrow> publishContent_failed e t w2
      | (Inr u, w2) \<Rightarrow> publishContent_done t w2)"
| "publishContent_resume env (ThreadLoop lastPost rootPost []) t w =
     publishContent_done t (emit (Notice (js ''Successfully posted to Bluesky!'')) w)"
| "publishContent_resume env (ThreadLoop lastPost rootPost (txt # rest)) t w =
     (case detectFacets env (trace w) txt of
        Inl e \<Rightarrow> publishContent_failed e t (emit (DetectFacets txt (Inl e)) w)
      | Inr fs \<Rightarrow>
          let w1 = emit (DetectFacets txt (Inr fs)) w;
              rp = (case lastPost of
                      None \<Rightarrow> None
                    | Some l \<Rightarrow> Some \<lparr>root = rootPost, parent = l\<rparr>);
              p = \<lparr>post_text = txt, createdAt = None, reply = rp, facets = Some fs\<rparr>
          in (Some (AwaitAgentPost p rootPost rest), t, w1))"
| "publishContent_resume env (AwaitAgentPost p rootPost rest) t w =
     (case post env (trace w) p of
        Inl e \<Rightarrow> publishContent_failed e t (emit (AgentPost p (Inl e)) w)
      | Inr result \<Rightarrow>
          let w2 = emit (AgentPost p (Inr result)) w;
              rootPost' = (case rootPost of
                             None \<Rightarrow> Some \<lparr>uri = uri result, cid = cid result\<rparr>
                           | Some r \<Rightarrow> Some r)
          in (Some (ThreadLoop (Some \<lparr>uri = uri result, cid = cid result\<rparr>) rootPost' rest), t, w2))"

text \<open>The awaits that an activation still has before it, at most.\<close>

fun awaits :: "'f activation \<Rightarrow> nat" where
  "awaits (AwaitLogin p ps) = 2 * length ps + 5"
| "awaits (AwaitCreatePost p) = 1"
| "awaits (ThreadLoop l r ts) = 2 * length ts + 1"
| "awaits (AwaitAgentPost p r rest) = 2 * length rest + 2"

text \<open>An activation run to its end with nothing in between.\<close>

function complete :: "'f remote \<Rightarrow> 'f activation \<Rightarrow> tab \<Rightarrow> 'f world \<Rightarrow> tab \<times> 'f world" where
  "complete env a t w =
     (case publishContent_resume env a t w of
        (None, t', w') \<Rightarrow> (t', w')
      | (Some a', t', w') \<Rightarrow> complete env a' t' w')"
  by pat_completeness auto
termination
proof (relation "measure (\<lambda>(env, a, t, w). awaits a)")
  show "wf (measure (\<lambda>(env, a, t, w). awaits a))"
    by simp
next
  fix env :: "'f remote" and a :: "'f activation" and t w x y a' z t' w'
  assume "(x, y) = publishContent_resume env a t w" and "x = Some a'"
  then have "fst (publishContent_resume env a t w) = Some a'"
    by (metis fst_conv)
  then have "awaits a' < awaits a"
    by (induction env a t w rule: publishContent_resume.induct)
       (auto simp: publishContent_failed_def publishContent_done_def Let_def
             split: prod.splits sum.splits if_splits)
  then show "((env, a', t', w'), env, a, t, w) \<in> measure (\<lambda>(env, a, t, w). awaits a)"
    by simp
qed

section \<open>The editor as a machine\<close>

text \<open>
  The state of the editor: the tab, the world, and the activations of \<open>publishContent\<close>
  that are suspended.  Its actions are the listeners that \<open>display\<close> and \<open>addPost\<close>
  register (a click on "Add to thread", on a close button, on "Post", an input event of
  a text area) and the settling of the call that a suspended activation awaits.  A
  listener runs to its end or to its first await, so every interleaving of the listeners
  with the pending publications is a run.

  What an activation does before an await (the check of the credentials in \<open>login\<close>, the
  check of the session in \<open>createPost\<close>) is taken together with the settling of that
  await: the listeners neither read the trace nor change the settings or the agent, so
  they cannot tell.  An await that the real editor resumes at once, before any listener
  can run, is a point where this machine lets the listeners in: that adds runs and
  removes none.
\<close>

record 'f editor =
  ed_tab :: tab
  ed_world :: "'f world"
  in_flight :: "'f activation list"

definition new_editor :: "'f world \<Rightarrow> 'f editor" where
  "new_editor w = \<lparr>ed_tab = new_BlueskyTab, ed_world = w, in_flight = []\<rparr>"

datatype action =
    AddPost
  | RemovePost nat
  | HandlePostChange nat jsstring
  | PublishContent
  | Settle nat

fun step :: "'f remote \<Rightarrow> 'f editor \<Rightarrow> action \<Rightarrow> 'f editor" where
  "step env s AddPost = s\<lparr>ed_tab := addPost (ed_tab s)\<rparr>"
| "step env s (RemovePost i) = s\<lparr>ed_tab := removePost i (ed_tab s)\<rparr>"
| "step env s (HandlePostChange i v) = s\<lparr>ed_tab := handlePostChange i v (ed_tab s)\<rparr>"
| "step env s PublishContent =
     (case publishContent_begin (ed_tab s) of
        (t, None) \<Rightarrow> s\<lparr>ed_tab := t\<rparr>
      | (t, Some a) \<Rightarrow> s\<lparr>ed_tab := t, in_flight := in_flight s @ [a]\<rparr>)"
| "step env s (Settle k) =
     (if k < length (in_flight s) then
        (case publishContent_resume env (in_flight s ! k) (ed_tab s) (ed_world s) of
           (None, t, w) \<Rightarrow> s\<lparr>ed_tab := t, ed_world := w, in_flight := splice1 (in_flight s) k\<rparr>
         | (Some a, t, w) \<Rightarrow> s\<lparr>ed_tab := t, ed_world := w, in_flight := (in_flight s)[k := a]\<rparr>)
      else s)"

definition run :: "'f remote \<Rightarrow> 'f editor \<Rightarrow> action list \<Rightarrow> 'f editor" where
  "run env s acts = foldl (step env) s acts"

text \<open>Every segment of the editor that is present has at most \<open>MAX_CHARS\<close> code units.\<close>

definition within_limit :: "tab \<Rightarrow> bool" where
  "within_limit t =
     list_all (\<lambda>p. case p of None \<Rightarrow> True | Some s \<Rightarrow> length s \<le> MAX_CHARS) (posts t)"

section \<open>A sample remote service\<close>

text \<open>
  A remote service for the examples.  It accepts every login and holds the session of
  the account \<open>did\<close>; it finds as facets the length of the text; it stores every record
  under a reference whose uri is the text of the record, and refuses the text \<open>x\<close>.
\<close>

definition ex_remote :: "nat remote" where
  "ex_remote =
     \<lparr>authenticate = (\<lambda>tr i p. (Inr (), Some [0x64, 0x69, 0x64])),
      detectFacets = (\<lambda>tr t. Inr (length t)),
      createRecord = (\<lambda>tr d c p. if post_text p = [0x78] then Inl (Error [0x6E])
                                else Inr \<lparr>uri = post_text p, cid = [0x63]\<rparr>),
      post = (\<lambda>tr p. if post_text p = [0x78] then Inl (Error [0x6E])
                     else Inr \<lparr>uri = post_text p, cid = [0x63]\<rparr>),
      now = (\<lambda>tr. [])\<rparr>"

text \<open>A world with credentials in the settings, and one with the initial settings.\<close>

definition ex_world :: "nat world" where
  "ex_world = \<lparr>plugin_settings = \<lparr>blueskyIdentifier = [0x75], blueskyAppPassword = [0x70]\<rparr>,
               trace = []\<rparr>"

definition ex_world_initial :: "nat world" where
  "ex_world_initial = \<lparr>plugin_settings = INITIAL_BLUESKY_SETTINGS, trace = []\<rparr>"

definition ex_bot :: bot where
  "ex_bot = \<lparr>session_did = Some [0x64, 0x69, 0x64]\<rparr>"

text \<open>
  Three threads: one that goes through, one whose second record is refused, and one whose
  first record is refused.
\<close>

definition ex_thread :: "jsstring list" where
  "ex_thread = [[0x61], [0x62], [0x63]]"

definition ex_thread_refused :: "jsstring list" where
  "ex_thread_refused = [[0x61], [0x78], [0x63]]"

definition ex_thread_refused_first :: "jsstring list" where
  "ex_thread_refused_first = [[0x78], [0x62]]"

text \<open>
  Four editors: with the segments \<open>a\<close>, a blank and \<open>b\<close>; with blank segments only; with
  the single segment \<open>a\<close>; with the single segment \<open>x\<close>, which the service refuses.  Then
  a text of 301 code units.
\<close>

definition ex_tab :: tab where
  "ex_tab = \<lparr>posts = [Some [0x61], Some [0x20], Some [0x62]], isPosting = False,
             tab_bot = new_BlueskyBot\<rparr>"

definition ex_tab_blank :: tab where
  "ex_tab_blank = \<lparr>posts = [Some [0x20], Some []], isPosting = False, tab_bot = new_BlueskyBot\<rparr>"

definition ex_tab_single :: tab where
  "ex_tab_single = \<lparr>posts = [Some [0x61]], isPosting = False, tab_bot = new_BlueskyBot\<rparr>"

definition ex_tab_refused :: tab where
  "ex_tab_refused = \<lparr>posts = [Some [0x78]], isPosting = False, tab_bot = new_BlueskyBot\<rparr>"

definition ex_long_text :: jsstring where
  "ex_long_text = replicate 301 0x61"

text \<open>The texts that a suspended activation may still submit.\<close>

fun pending_texts :: "'f activation \<Rightarrow> jsstring list" where
  "pending_texts (AwaitLogin p ps) = p # ps"
| "pending_texts (AwaitCreatePost p) = [p]"
| "pending_texts (ThreadLoop l r ts) = ts"
| "pending_texts (AwaitAgentPost p r rest) = post_text p # rest"

text \<open>
  The editor is within the limit when every segment present, and every text of a
  suspended activation, has at most \<open>MAX_CHARS\<close> code units.
\<close>

definition limited :: "'f editor \<Rightarrow> bool" where
  "limited s \<longleftrightarrow>
     within_limit (ed_tab s) \<and>
     list_all (\<lambda>a. list_all (\<lambda>x. length x \<le> MAX_CHARS) (pending_texts a)) (in_flight s)"

text \<open>
  Actions of the editor: the segment \<open>a\<close> is typed and "Post" is clicked; while the login
  is awaited the segment is changed to \<open>zzz\<close> and a segment is added; then the login
  settles, and then the call of \<open>createPost\<close>.
\<close>

definition ex_actions :: "action list" where
  "ex_actions = [HandlePostChange 0 [0x61], PublishContent,
                 HandlePostChange 0 [0x7A, 0x7A, 0x7A], AddPost, Settle 0, Settle 0]"

text \<open>
  An editor in the middle of a publication of the segment \<open>a\<close>: the agent holds a
  session, and the segments have been edited since the click on "Post".
\<close>

definition ex_tab_posting :: tab where
  "ex_tab_posting = \<lparr>posts = [Some [0x7A, 0x7A, 0x7A], Some []], isPosting = True, tab_bot = ex_bot\<rparr>"

text \<open>
  Actions of the editor: a text of 301 code units is typed in the first segment, "Post" is
  clicked, the login settles, and then the call of \<open>createPost\<close>.
\<close>

definition ex_long_actions :: "action list" where
  "ex_long_actions = [HandlePostChange 0 ex_long_text, PublishContent, Settle 0, Settle 0]"

section \<open>Reading a trace: basic facts\<close>

lemma ref_eta: "\<lparr>uri = uri (x::ref), cid = cid x\<rparr> = x"
  by (cases x) simp

lemma submissions_append: "submissions (xs @ ys) = submissions xs @ submissions ys"
  by (induction xs rule: submissions.induct) simp_all

lemma detections_append: "detections (xs @ ys) = detections xs @ detections ys"
  by (induction xs rule: detections.induct) simp_all

lemma notices_append: "notices (xs @ ys) = notices xs @ notices ys"
  by (induction xs rule: notices.induct) simp_all

lemma logins_append: "logins (xs @ ys) = logins xs @ logins ys"
  by (induction xs rule: logins.induct) simp_all


lemma accepted_Inr: "accepted (map (\<lambda>(p, x). (p, Inr x)) acc) = acc"
  by (induction acc) auto

lemma issued_append: "trace w' = trace w @ evs \<Longrightarrow> issued w w' = evs"
  by (simp add: issued_def)

lemma issued_same: "issued w w = []"
  by (simp add: issued_def)

lemma trace_emit: "trace (emit ev w) = trace w @ [ev]"
  by (simp add: emit_def)

lemma settings_emit: "plugin_settings (emit ev w) = plugin_settings w"
  by (simp add: emit_def)

lemma submissions_rounds:
  "submissions (concat (map round_events acc)) = map (\<lambda>(p, x). (p, Inr x)) acc"
  by (induction acc) (auto simp: submissions_append split: option.splits)

lemma notices_rounds: "notices (concat (map round_events acc)) = []"
  by (induction acc) (auto simp: notices_append split: option.splits)

lemma logins_rounds: "logins (concat (map round_events acc)) = []"
  by (induction acc) (auto simp: logins_append split: option.splits)



section \<open>The reply chain by position\<close>

lemma chained_nth:
  "chained (Some l) (Some r0) xs \<Longrightarrow> i < length xs \<Longrightarrow>
   reply (fst (xs ! i)) =
     Some \<lparr>root = Some r0, parent = (if i = 0 then l else snd (xs ! (i - 1)))\<rparr>"
proof (induction xs arbitrary: l i)
  case Nil
  then show ?case by simp
next
  case (Cons a xs)
  obtain p x where a: "a = (p, x)" by (cases a)
  show ?case
  proof (cases i)
    case 0
    with Cons.prems a show ?thesis by simp
  next
    case (Suc j)
    from Cons.prems a have "chained (Some x) (Some r0) xs" by simp
    moreover from Cons.prems Suc have "j < length xs" by simp
    ultimately have "reply (fst (xs ! j)) =
        Some \<lparr>root = Some r0, parent = (if j = 0 then x else snd (xs ! (j - 1)))\<rparr>"
      by (rule Cons.IH)
    with Suc a show ?thesis by (cases j) simp_all
  qed
qed

lemma chained_from_start:
  assumes "chained None None xs" and "i < length xs"
  shows "reply (fst (xs ! i)) =
     (if i = 0 then None else Some \<lparr>root = Some (snd (xs ! 0)), parent = snd (xs ! (i - 1))\<rparr>)"
proof (cases xs)
  case Nil
  with assms show ?thesis by simp
next
  case (Cons a ys)
  obtain p x where a: "a = (p, x)" by (cases a)
  from assms Cons a have first: "reply p = None" and rest: "chained (Some x) (Some x) ys"
    by simp_all
  show ?thesis
  proof (cases i)
    case 0
    with Cons a first show ?thesis by simp
  next
    case (Suc j)
    with assms Cons have "j < length ys" by simp
    from chained_nth [OF rest this] Suc Cons a show ?thesis
      by (cases j) simp_all
  qed
qed

section \<open>The events of a run of the loop\<close>

lemma loop_events:
  "createThread_loop env l r w ts = (res, w') \<Longrightarrow>
   \<exists>acc tail.
     trace w' = trace w @ concat (map round_events acc) @ tail \<and>
     plugin_settings w' = plugin_settings w \<and>
     chained l r acc \<and>
     map (post_text \<circ> fst) acc = take (length acc) ts \<and>
     (\<forall>q \<in> set acc. facets (fst q) \<noteq> None) \<and>
     (case res of
        Inr u \<Rightarrow> tail = [] \<and> length acc = length ts
      | Inl e \<Rightarrow> length acc < length ts \<and>
          (tail = [DetectFacets (ts ! length acc) (Inl e)] \<or>
           (\<exists>p f. tail = [DetectFacets (ts ! length acc) (Inr f), AgentPost p (Inl e)] \<and>
                  post_text p = ts ! length acc)))"
proof (induction ts arbitrary: l r w)
  case Nil
  then show ?case
    by (intro exI [of _ "[]"]) (auto split: sum.splits)
next
  case (Cons t ts)
  show ?case
  proof (cases "detectFacets env (trace w) t")
    case (Inl e)
    with Cons.prems have "res = Inl e" "w' = emit (DetectFacets t (Inl e)) w"
      by auto
    then show ?thesis
      by (intro exI [of _ "[]"] exI [of _ "[DetectFacets t (Inl e)]"]) (simp add: emit_def)
  next
    case (Inr f)
    define w1 where "w1 = emit (DetectFacets t (Inr f)) w"
    define p where "p = \<lparr>post_text = t, createdAt = None,
         reply = (case l of None \<Rightarrow> None | Some y \<Rightarrow> Some \<lparr>root = r, parent = y\<rparr>),
         facets = Some f\<rparr>"
    show ?thesis
    proof (cases "post env (trace w1) p")
      case (Inl e)
      with Cons.prems Inr have "res = Inl e" "w' = emit (AgentPost p (Inl e)) w1"
        by (auto simp: w1_def p_def Let_def)
      then show ?thesis
        by (intro exI [of _ "[]"] exI [of _ "[DetectFacets t (Inr f), AgentPost p (Inl e)]"])
           (simp add: emit_def w1_def p_def)
    next
      case (Inr x)
      define w2 where "w2 = emit (AgentPost p (Inr x)) w1"
      define r' where "r' = (case r of None \<Rightarrow> Some x | Some y \<Rightarrow> Some y)"
      from Cons.prems \<open>detectFacets env (trace w) t = Inr f\<close> Inr
      have run: "createThread_loop env (Some x) r' w2 ts = (res, w')"
        by (simp add: w1_def p_def w2_def r'_def Let_def ref_eta cong: option.case_cong)
      from Cons.IH [OF run] obtain acc tail where
        tr: "trace w' = trace w2 @ concat (map round_events acc) @ tail" and
        ps: "plugin_settings w' = plugin_settings w2" and
        ch: "chained (Some x) r' acc" and
        tx: "map (post_text \<circ> fst) acc = take (length acc) ts" and
        fc: "\<forall>q \<in> set acc. facets (fst q) \<noteq> None" and
        rs: "(case res of
               Inr u \<Rightarrow> tail = [] \<and> length acc = length ts
             | Inl e \<Rightarrow> length acc < length ts \<and>
                 (tail = [DetectFacets (ts ! length acc) (Inl e)] \<or>
                  (\<exists>p f. tail = [DetectFacets (ts ! length acc) (Inr f), AgentPost p (Inl e)] \<and>
                         post_text p = ts ! length acc)))"
        by blast
      have tr2: "trace w2 = trace w @ round_events (p, x)"
        by (simp add: w2_def w1_def emit_def p_def)
      have "trace w' = trace w @ concat (map round_events ((p, x) # acc)) @ tail"
        using tr tr2 by simp
      moreover have "plugin_settings w' = plugin_settings w"
        using ps by (simp add: w2_def w1_def emit_def)
      moreover have "chained l r ((p, x) # acc)"
        using ch by (simp add: p_def r'_def)
      moreover have "map (post_text \<circ> fst) ((p, x) # acc) = take (length ((p, x) # acc)) (t # ts)"
        using tx by (simp add: p_def)
      moreover have "\<forall>q \<in> set ((p, x) # acc). facets (fst q) \<noteq> None"
        using fc by (simp add: p_def)
      moreover have "(case res of
               Inr u \<Rightarrow> tail = [] \<and> length ((p, x) # acc) = length (t # ts)
             | Inl e \<Rightarrow> length ((p, x) # acc) < length (t # ts) \<and>
                 (tail = [DetectFacets ((t # ts) ! length ((p, x) # acc)) (Inl e)] \<or>
                  (\<exists>p' f. tail = [DetectFacets ((t # ts) ! length ((p, x) # acc)) (Inr f), AgentPost p' (Inl e)] \<and>
                         post_text p' = (t # ts) ! length ((p, x) # acc))))"
        using rs by (simp split: sum.splits)
      ultimately show ?thesis
        by blast
    qed
  qed
qed

text \<open>The same for \<open>createThread\<close>, which adds the notice of success.\<close>

lemma createThread_events:
  assumes "createThread env w texts = (res, w')" and "texts \<noteq> []"
  shows "\<exists>acc tail.
     trace w' = trace w @ concat (map round_events acc) @ tail \<and>
     plugin_settings w' = plugin_settings w \<and>
     chained None None acc \<and>
     map (post_text \<circ> fst) acc = take (length acc) texts \<and>
     (\<forall>q \<in> set acc. facets (fst q) \<noteq> None) \<and>
     (case res of
        Inr u \<Rightarrow> tail = [Notice (js ''Successfully posted to Bluesky!'')] \<and>
                 length acc = length texts
      | Inl e \<Rightarrow> length acc < length texts \<and>
          (tail = [DetectFacets (texts ! length acc) (Inl e)] \<or>
           (\<exists>p f. tail = [DetectFacets (texts ! length acc) (Inr f), AgentPost p (Inl e)] \<and>
                  post_text p = texts ! length acc)))"
proof -
  obtain res0 w0 where loop: "createThread_loop env None None w texts = (res0, w0)"
    by (cases "createThread_loop env None None w texts")
  from loop_events [OF loop] obtain acc tail where
    tr: "trace w0 = trace w @ concat (map round_events acc) @ tail" and
    ps: "plugin_settings w0 = plugin_settings w" and
    ch: "chained None None acc" and
    tx: "map (post_text \<circ> fst) acc = take (length acc) texts" and
    fc: "\<forall>q \<in> set acc. facets (fst q) \<noteq> None" and
    rs: "(case res0 of
           Inr u \<Rightarrow> tail = [] \<and> length acc = length texts
         | Inl e \<Rightarrow> length acc < length texts \<and>
             (tail = [DetectFacets (texts ! length acc) (Inl e)] \<or>
              (\<exists>p f. tail = [DetectFacets (texts ! length acc) (Inr f), AgentPost p (Inl e)] \<and>
                     post_text p = texts ! length acc)))"
    by blast
  show ?thesis
  proof (cases res0)
    case (Inl e)
    with assms loop have "res = Inl e" "w' = w0"
      by (simp_all add: createThread_def)
    with tr ps ch tx fc rs Inl show ?thesis
      by (intro exI [of _ acc] exI [of _ tail]) simp
  next
    case (Inr u)
    with assms loop have "res = Inr ()"
        "w' = emit (Notice (js ''Successfully posted to Bluesky!'')) w0"
      by (simp_all add: createThread_def)
    with tr ps ch tx fc rs Inr show ?thesis
      by (intro exI [of _ acc] exI [of _ "[Notice (js ''Successfully posted to Bluesky!'')]"])
         (simp add: emit_def)
  qed
qed

lemma map_snd_Inr: "map snd (map (\<lambda>(p, x). (p, Inr x)) acc) = map Inr (map snd acc)"
  by (induction acc) auto

lemma createThread_empty: "createThread env w [] = (Inr (), w)"
  by (simp add: createThread_def)

text \<open>The definitions to unfold when a run on the sample service is evaluated.\<close>

lemmas ex_defs = ex_remote_def ex_world_def ex_world_initial_def ex_bot_def emit_def
  ex_thread_def ex_thread_refused_def ex_thread_refused_first_def
  createThread_def createPost_def createPost_catch_def login_def issued_def
  INITIAL_BLUESKY_SETTINGS_def new_BlueskyBot_def Let_def

section \<open>createThread: the reply chain\<close>

text \<open>
  Claim C1.  When \<open>createThread\<close> succeeds on \<open>N > 1\<close> texts, it has issued exactly \<open>N\<close>
  submissions, in the order of the texts and each with its text; every one returned a
  reference; the first record has no reply link, and the record at each position
  \<open>i > 0\<close> has \<open>reply.root\<close> the reference returned for position \<open>0\<close> and
  \<open>reply.parent\<close> the reference returned for position \<open>i - 1\<close>.
\<close>

theorem createThread_reply_chain:
  assumes run: "createThread env w texts = (Inr (), w')" and many: "1 < length texts"
  shows "\<exists>refs. length refs = length texts \<and>
           length (submissions (issued w w')) = length texts \<and>
           map snd (submissions (issued w w')) = map Inr refs \<and>
           map (post_text \<circ> fst) (submissions (issued w w')) = texts \<and>
           reply (fst (submissions (issued w w') ! 0)) = None \<and>
           (\<forall>i. 0 < i \<and> i < length texts \<longrightarrow>
                reply (fst (submissions (issued w w') ! i)) =
                  Some \<lparr>root = Some (refs ! 0), parent = refs ! (i - 1)\<rparr>)"
proof -
  from many have ne: "texts \<noteq> []" by auto
  from createThread_events [OF run ne] obtain acc tail where
    tr: "trace w' = trace w @ concat (map round_events acc) @ tail" and
    ch: "chained None None acc" and
    tx: "map (post_text \<circ> fst) acc = take (length acc) texts" and
    tl: "tail = [Notice (js ''Successfully posted to Bluesky!'')]" and
    ln: "length acc = length texts"
    by auto
  have subs: "submissions (issued w w') = map (\<lambda>(p, x). (p, Inr x)) acc"
    using issued_append [OF tr] tl by (simp add: submissions_append submissions_rounds)
  have nth_fst: "fst (submissions (issued w w') ! i) = fst (acc ! i)" if "i < length acc" for i
    using that by (simp add: subs case_prod_beta)
  have "length (map snd acc) = length texts"
    using ln by simp
  moreover have "length (submissions (issued w w')) = length texts"
    using ln by (simp add: subs)
  moreover have "map snd (submissions (issued w w')) = map Inr (map snd acc)"
    unfolding subs by (rule map_snd_Inr)
  moreover have "map (post_text \<circ> fst) (submissions (issued w w')) = texts"
    using tx ln by (simp add: subs case_prod_beta comp_def)
  moreover have "reply (fst (submissions (issued w w') ! 0)) = None"
  proof -
    have pos: "0 < length acc" using ne ln by simp
    from chained_from_start [OF ch pos] nth_fst [OF pos] show ?thesis by simp
  qed
  moreover have "\<forall>i. 0 < i \<and> i < length texts \<longrightarrow>
                reply (fst (submissions (issued w w') ! i)) =
                  Some \<lparr>root = Some (map snd acc ! 0), parent = map snd acc ! (i - 1)\<rparr>"
  proof (intro allI impI)
    fix i assume i: "0 < i \<and> i < length texts"
    then have "i < length acc" using ln by simp
    moreover from this have "map snd acc ! 0 = snd (acc ! 0)"
      by (cases acc) simp_all
    moreover from \<open>i < length acc\<close> have "map snd acc ! (i - 1) = snd (acc ! (i - 1))"
      by (simp add: less_imp_diff_less)
    ultimately have "reply (fst (acc ! i)) =
        Some \<lparr>root = Some (map snd acc ! 0), parent = map snd acc ! (i - 1)\<rparr>"
      using chained_from_start [OF ch, of i] i by simp
    with nth_fst [OF \<open>i < length acc\<close>]
    show "reply (fst (submissions (issued w w') ! i)) =
                  Some \<lparr>root = Some (map snd acc ! 0), parent = map snd acc ! (i - 1)\<rparr>"
      by simp
  qed
  ultimately show ?thesis by blast
qed

theorem createThread_reply_chain_witness:
  "fst (createThread ex_remote ex_world ex_thread) = Inr () \<and>
   1 < length ex_thread \<and>
   length (submissions (issued ex_world (snd (createThread ex_remote ex_world ex_thread)))) = 3 \<and>
   map snd (submissions (issued ex_world (snd (createThread ex_remote ex_world ex_thread))))
     = [Inr \<lparr>uri = [0x61], cid = [0x63]\<rparr>, Inr \<lparr>uri = [0x62], cid = [0x63]\<rparr>,
        Inr \<lparr>uri = [0x63], cid = [0x63]\<rparr>] \<and>
   reply (fst (submissions (issued ex_world (snd (createThread ex_remote ex_world ex_thread))) ! 0))
     = None \<and>
   reply (fst (submissions (issued ex_world (snd (createThread ex_remote ex_world ex_thread))) ! 1))
     = Some \<lparr>root = Some \<lparr>uri = [0x61], cid = [0x63]\<rparr>, parent = \<lparr>uri = [0x61], cid = [0x63]\<rparr>\<rparr> \<and>
   reply (fst (submissions (issued ex_world (snd (createThread ex_remote ex_world ex_thread))) ! 2))
     = Some \<lparr>root = Some \<lparr>uri = [0x61], cid = [0x63]\<rparr>, parent = \<lparr>uri = [0x62], cid = [0x63]\<rparr>\<rparr>"
proof -
  have run: "createThread ex_remote ex_world ex_thread =
     (Inr (), snd (createThread ex_remote ex_world ex_thread))"
    by (simp add: ex_defs)
  have many: "1 < length ex_thread"
    by (simp add: ex_thread_def)
  have returned: "map snd (submissions (issued ex_world (snd (createThread ex_remote ex_world ex_thread))))
     = [Inr \<lparr>uri = [0x61], cid = [0x63]\<rparr>, Inr \<lparr>uri = [0x62], cid = [0x63]\<rparr>,
        Inr \<lparr>uri = [0x63], cid = [0x63]\<rparr>]"
    by (simp add: ex_defs)
  from createThread_reply_chain [OF run many] obtain refs where
    len: "length (submissions (issued ex_world (snd (createThread ex_remote ex_world ex_thread))))
            = length ex_thread" and
    refs: "map snd (submissions (issued ex_world (snd (createThread ex_remote ex_world ex_thread))))
            = map Inr refs" and
    first: "reply (fst (submissions (issued ex_world (snd (createThread ex_remote ex_world ex_thread))) ! 0))
            = None" and
    link: "\<forall>i. 0 < i \<and> i < length ex_thread \<longrightarrow>
        reply (fst (submissions (issued ex_world (snd (createThread ex_remote ex_world ex_thread))) ! i)) =
          Some \<lparr>root = Some (refs ! 0), parent = refs ! (i - 1)\<rparr>"
    by blast
  from refs returned have "refs = [\<lparr>uri = [0x61], cid = [0x63]\<rparr>, \<lparr>uri = [0x62], cid = [0x63]\<rparr>,
        \<lparr>uri = [0x63], cid = [0x63]\<rparr>]"
    by (auto simp: map_eq_Cons_conv)
  with link [rule_format, of 1] link [rule_format, of 2]
  have "reply (fst (submissions (issued ex_world (snd (createThread ex_remote ex_world ex_thread))) ! 1))
     = Some \<lparr>root = Some \<lparr>uri = [0x61], cid = [0x63]\<rparr>, parent = \<lparr>uri = [0x61], cid = [0x63]\<rparr>\<rparr>"
   "reply (fst (submissions (issued ex_world (snd (createThread ex_remote ex_world ex_thread))) ! 2))
     = Some \<lparr>root = Some \<lparr>uri = [0x61], cid = [0x63]\<rparr>, parent = \<lparr>uri = [0x62], cid = [0x63]\<rparr>\<rparr>"
    by (simp_all add: ex_thread_def)
  moreover have "fst (createThread ex_remote ex_world ex_thread) = Inr ()"
    using run by (metis fst_conv)
  moreover have "length (submissions (issued ex_world (snd (createThread ex_remote ex_world ex_thread)))) = 3"
    using len by (simp add: ex_thread_def)
  ultimately show ?thesis using many returned first by simp
qed

section \<open>createThread: a refused submission\<close>

text \<open>The shape of a run in which a submission is refused.\<close>

lemma submission_failure_shape:
  assumes run: "createThread env w texts = (res, w')"
    and k: "k < length (submissions (issued w w'))"
    and fails: "snd (submissions (issued w w') ! k) = Inl e"
  shows "\<exists>acc p f. res = Inl e \<and> length acc = k \<and> k < length texts \<and>
           issued w w' = concat (map round_events acc) @
                           [DetectFacets (texts ! k) (Inr f), AgentPost p (Inl e)] \<and>
           post_text p = texts ! k \<and>
           map (post_text \<circ> fst) acc = take k texts \<and>
           (\<forall>q \<in> set acc. facets (fst q) \<noteq> None)"
proof -
  have ne: "texts \<noteq> []"
  proof
    assume "texts = []"
    with run have "w' = w" by (simp add: createThread_empty)
    with k show False by (simp add: issued_same)
  qed
  from createThread_events [OF run ne] obtain acc tail where
    tr: "trace w' = trace w @ concat (map round_events acc) @ tail" and
    tx: "map (post_text \<circ> fst) acc = take (length acc) texts" and
    fc: "\<forall>q \<in> set acc. facets (fst q) \<noteq> None" and
    rs: "(case res of
        Inr u \<Rightarrow> tail = [Notice (js ''Successfully posted to Bluesky!'')] \<and>
                 length acc = length texts
      | Inl e \<Rightarrow> length acc < length texts \<and>
          (tail = [DetectFacets (texts ! length acc) (Inl e)] \<or>
           (\<exists>p f. tail = [DetectFacets (texts ! length acc) (Inr f), AgentPost p (Inl e)] \<and>
                  post_text p = texts ! length acc)))"
    by blast
  have iss: "issued w w' = concat (map round_events acc) @ tail"
    using issued_append [OF tr] by simp
  have subs: "submissions (issued w w') = map (\<lambda>(p, x). (p, Inr x)) acc @ submissions tail"
    by (simp add: iss submissions_append submissions_rounds)
  have not_acc: "\<not> k < length acc"
  proof
    assume "k < length acc"
    then have "snd (submissions (issued w w') ! k) = Inr (snd (acc ! k))"
      by (simp add: subs nth_append case_prod_beta)
    with fails show False by simp
  qed
  show ?thesis
  proof (cases res)
    case (Inr u)
    with rs have "submissions tail = []" by simp
    with k subs not_acc show ?thesis by simp
  next
    case (Inl e0)
    with rs have short: "length acc < length texts" by simp
    from rs Inl consider
      (detect) "tail = [DetectFacets (texts ! length acc) (Inl e0)]"
      | (submit) p f where "tail = [DetectFacets (texts ! length acc) (Inr f), AgentPost p (Inl e0)]"
          "post_text p = texts ! length acc"
      by auto
    then show ?thesis
    proof cases
      case detect
      then have "submissions tail = []" by simp
      with k subs not_acc show ?thesis by simp
    next
      case submit
      then have st: "submissions tail = [(p, Inl e0)]" by simp
      with k subs not_acc have keq: "k = length acc" by simp
      with fails subs st have "e0 = e" by (simp add: nth_append)
      with Inl keq short iss submit tx fc show ?thesis
        by (intro exI [of _ acc] exI [of _ p] exI [of _ f]) simp
    qed
  qed
qed



section \<open>login without credentials\<close>

text \<open>
  Claim C4.  When the identifier or the app password of the settings is the empty string,
  \<open>login\<close> fails with the error of the missing credentials, after it has shown the notice
  "Not logged in ..." and logged the error to the console: these are its only two events,
  so it makes no call to the remote service, and it leaves the bot as it was.
\<close>

theorem login_missing_credentials:
  assumes "blueskyIdentifier (plugin_settings w) = [] \<or> blueskyAppPassword (plugin_settings w) = []"
  shows "\<exists>w'. login env b w =
             (Inl (Error (js ''Missing Bluesky credentials - please configure them in settings'')),
              b, w') \<and>
           issued w w' =
             [Notice (js ''Not logged in. Go to the Bluesky plugin settings to login.''),
              ConsoleError (js ''Failed to login:'')
                (Error (js ''Missing Bluesky credentials - please configure them in settings''))] \<and>
           logins (issued w w') = [] \<and>
           submissions (issued w w') = [] \<and>
           detections (issued w w') = []"
proof -
  define w' where "w' = emit (ConsoleError (js ''Failed to login:'')
                    (Error (js ''Missing Bluesky credentials - please configure them in settings'')))
              (emit (Notice (js ''Not logged in. Go to the Bluesky plugin settings to login.'')) w)"
  have "login env b w =
           (Inl (Error (js ''Missing Bluesky credentials - please configure them in settings'')), b, w')"
    using assms unfolding login_def Let_def w'_def by auto
  moreover have "issued w w' =
             [Notice (js ''Not logged in. Go to the Bluesky plugin settings to login.''),
              ConsoleError (js ''Failed to login:'')
                (Error (js ''Missing Bluesky credentials - please configure them in settings''))]"
    by (simp add: w'_def issued_def emit_def)
  ultimately show ?thesis by simp
qed

theorem login_missing_credentials_witness:
  "(blueskyIdentifier (plugin_settings ex_world_initial) = [] \<or>
    blueskyAppPassword (plugin_settings ex_world_initial) = []) \<and>
   fst (login ex_remote new_BlueskyBot ex_world_initial) =
     Inl (Error (js ''Missing Bluesky credentials - please configure them in settings'')) \<and>
   notices (issued ex_world_initial (snd (snd (login ex_remote new_BlueskyBot ex_world_initial)))) =
     [js ''Not logged in. Go to the Bluesky plugin settings to login.''] \<and>
   logins (issued ex_world_initial (snd (snd (login ex_remote new_BlueskyBot ex_world_initial)))) = []"
proof -
  have missing: "blueskyIdentifier (plugin_settings ex_world_initial) = [] \<or>
    blueskyAppPassword (plugin_settings ex_world_initial) = []"
    by (simp add: ex_world_initial_def INITIAL_BLUESKY_SETTINGS_def)
  from login_missing_credentials [OF missing, of ex_remote new_BlueskyBot] obtain w' where
    "login ex_remote new_BlueskyBot ex_world_initial =
       (Inl (Error (js ''Missing Bluesky credentials - please configure them in settings'')),
        new_BlueskyBot, w')"
    "issued ex_world_initial w' =
             [Notice (js ''Not logged in. Go to the Bluesky plugin settings to login.''),
              ConsoleError (js ''Failed to login:'')
                (Error (js ''Missing Bluesky credentials - please configure them in settings''))]"
    by blast
  with missing show ?thesis by simp
qed

section \<open>The events of login and of createPost\<close>

lemma login_events:
  assumes "login env b w = (res, b', w')"
  shows "\<exists>evs. trace w' = trace w @ evs \<and> plugin_settings w' = plugin_settings w \<and>
           submissions evs = [] \<and> detections evs = [] \<and>
           (case res of
              Inl e \<Rightarrow> evs \<noteq> [] \<and> last evs = ConsoleError (js ''Failed to login:'') e
            | Inr u \<Rightarrow>
                blueskyIdentifier (plugin_settings w) \<noteq> [] \<and>
                blueskyAppPassword (plugin_settings w) \<noteq> [] \<and>
                evs = [AgentLogin (blueskyIdentifier (plugin_settings w))
                         (blueskyAppPassword (plugin_settings w)) (Inr ())] \<and>
                authenticate env (trace w) (blueskyIdentifier (plugin_settings w))
                  (blueskyAppPassword (plugin_settings w)) = (Inr (), session_did b'))"
proof (cases "blueskyIdentifier (plugin_settings w) = [] \<or> blueskyAppPassword (plugin_settings w) = []")
  case True
  with assms show ?thesis
    unfolding login_def Let_def
    by (intro exI [of _ "[Notice (js ''Not logged in. Go to the Bluesky plugin settings to login.''),
              ConsoleError (js ''Failed to login:'')
                (Error (js ''Missing Bluesky credentials - please configure them in settings''))]"])
       (auto simp: emit_def)
next
  case False
  obtain out s where auth: "authenticate env (trace w) (blueskyIdentifier (plugin_settings w))
                  (blueskyAppPassword (plugin_settings w)) = (out, s)"
    by (cases "authenticate env (trace w) (blueskyIdentifier (plugin_settings w))
                  (blueskyAppPassword (plugin_settings w))")
  show ?thesis
  proof (cases out)
    case (Inl e)
    with assms False auth show ?thesis
      unfolding login_def Let_def
      by (intro exI [of _ "[AgentLogin (blueskyIdentifier (plugin_settings w))
                         (blueskyAppPassword (plugin_settings w)) (Inl e),
                       ConsoleError (js ''Failed to login:'') e]"])
         (auto simp: emit_def)
  next
    case (Inr u)
    with assms False auth show ?thesis
      unfolding login_def Let_def
      by (intro exI [of _ "[AgentLogin (blueskyIdentifier (plugin_settings w))
                         (blueskyAppPassword (plugin_settings w)) (Inr ())]"])
         (auto simp: emit_def)
  qed
qed

lemma createPost_events:
  assumes "createPost env b w txt = (res, w')"
  shows "\<exists>evs. trace w' = trace w @ evs \<and> plugin_settings w' = plugin_settings w \<and>
           (case res of
              Inr u \<Rightarrow>
                (\<exists>d c r x. evs = [CreateRecord d c r (Inr x),
                                  Notice (js ''Successfully posted to Bluesky!'')] \<and>
                           post_text r = txt \<and> reply r = None)
            | Inl e \<Rightarrow>
                evs = [ConsoleError (js ''Failed to post:'') e,
                       Notice (js ''Failed to post: '' @ message e)] \<and>
                (session_did b = None \<or> session_did b = Some []) \<or>
                (\<exists>d c r. evs = [CreateRecord d c r (Inl e),
                                ConsoleError (js ''Failed to post:'') e,
                                Notice (js ''Failed to post: '' @ message e)] \<and>
                         post_text r = txt \<and> reply r = None \<and> session_did b = Some d \<and> d \<noteq> []))"
proof (cases "session_did b")
  case None
  with assms show ?thesis
    by (auto simp: createPost_def createPost_catch_def emit_def)
next
  case (Some did)
  show ?thesis
  proof (cases "did = []")
    case True
    with assms Some show ?thesis
      by (auto simp: createPost_def createPost_catch_def emit_def)
  next
    case False
    define r :: "'a feed_post" where
      "r = \<lparr>post_text = txt, createdAt = Some (now env (trace w)), reply = None, facets = None\<rparr>"
    show ?thesis
    proof (cases "createRecord env (trace w) did (js ''app.bsky.feed.post'') r")
      case (Inl e)
      with assms Some False have "res = Inl e"
        "w' = emit (Notice (js ''Failed to post: '' @ message e))
               (emit (ConsoleError (js ''Failed to post:'') e)
                 (emit (CreateRecord did (js ''app.bsky.feed.post'') r (Inl e)) w))"
        by (simp_all add: createPost_def createPost_catch_def Let_def r_def)
      with Some False show ?thesis
        by (intro exI [of _ "[CreateRecord did (js ''app.bsky.feed.post'') r (Inl e),
                                ConsoleError (js ''Failed to post:'') e,
                                Notice (js ''Failed to post: '' @ message e)]"])
           (simp add: emit_def r_def)
    next
      case (Inr x)
      with assms Some False have "res = Inr ()"
        "w' = emit (Notice (js ''Successfully posted to Bluesky!''))
                 (emit (CreateRecord did (js ''app.bsky.feed.post'') r (Inr x)) w)"
        by (simp_all add: createPost_def createPost_catch_def Let_def r_def)
      then show ?thesis
        by (intro exI [of _ "[CreateRecord did (js ''app.bsky.feed.post'') r (Inr x),
                                  Notice (js ''Successfully posted to Bluesky!'')]"])
           (simp add: emit_def r_def)
    qed
  qed
qed

section \<open>createThread: what a failure tells the caller\<close>

text \<open>
  Claim C6 as stated (the failure surfaced to the caller reports how many segments
  succeeded before it) fails.  On the sample service one thread is refused at its first
  text and another at its second: the caller receives the same failure in both runs,
  though no record was stored in the first and one in the second, and no notice is shown.
\<close>

theorem failure_reports_count_counterexample:
  "fst (createThread ex_remote ex_world ex_thread_refused_first) = Inl (Error [0x6E]) \<and>
   length (accepted (submissions (issued ex_world
      (snd (createThread ex_remote ex_world ex_thread_refused_first))))) = 0 \<and>
   fst (createThread ex_remote ex_world ex_thread_refused) = Inl (Error [0x6E]) \<and>
   length (accepted (submissions (issued ex_world
      (snd (createThread ex_remote ex_world ex_thread_refused))))) = 1 \<and>
   notices (issued ex_world (snd (createThread ex_remote ex_world ex_thread_refused))) = []"
  by (simp add: ex_defs)

text \<open>
  Claim C6, amended.  The failure that \<open>createThread\<close> surfaces is the error of the refused
  submission itself, handed on unchanged, and \<open>createThread\<close> shows no notice: two runs
  whose submissions are refused with the same error, at whatever positions, surface the
  same failure.
\<close>

theorem createThread_failure_is_remote_error:
  assumes run1: "createThread env1 w1 texts1 = (res1, w1')"
    and k1: "k1 < length (submissions (issued w1 w1'))"
    and fails1: "snd (submissions (issued w1 w1') ! k1) = Inl e"
    and run2: "createThread env2 w2 texts2 = (res2, w2')"
    and k2: "k2 < length (submissions (issued w2 w2'))"
    and fails2: "snd (submissions (issued w2 w2') ! k2) = Inl e"
  shows "res1 = Inl e \<and> res2 = res1 \<and>
         notices (issued w1 w1') = [] \<and> notices (issued w2 w2') = []"
proof -
  from submission_failure_shape [OF run1 k1 fails1] obtain acc1 p1 f1 where
    "res1 = Inl e"
    "issued w1 w1' = concat (map round_events acc1) @
                           [DetectFacets (texts1 ! k1) (Inr f1), AgentPost p1 (Inl e)]"
    by blast
  moreover from submission_failure_shape [OF run2 k2 fails2] obtain acc2 p2 f2 where
    "res2 = Inl e"
    "issued w2 w2' = concat (map round_events acc2) @
                           [DetectFacets (texts2 ! k2) (Inr f2), AgentPost p2 (Inl e)]"
    by blast
  ultimately show ?thesis
    by (simp add: notices_append notices_rounds)
qed

theorem createThread_failure_is_remote_error_witness:
  "0 < length (submissions (issued ex_world (snd (createThread ex_remote ex_world ex_thread_refused_first)))) \<and>
   snd (submissions (issued ex_world (snd (createThread ex_remote ex_world ex_thread_refused_first))) ! 0)
     = Inl (Error [0x6E]) \<and>
   1 < length (submissions (issued ex_world (snd (createThread ex_remote ex_world ex_thread_refused)))) \<and>
   snd (submissions (issued ex_world (snd (createThread ex_remote ex_world ex_thread_refused))) ! 1)
     = Inl (Error [0x6E]) \<and>
   fst (createThread ex_remote ex_world ex_thread_refused_first) = Inl (Error [0x6E]) \<and>
   fst (createThread ex_remote ex_world ex_thread_refused)
     = fst (createThread ex_remote ex_world ex_thread_refused_first)"
proof -
  have run1: "createThread ex_remote ex_world ex_thread_refused_first =
     (fst (createThread ex_remote ex_world ex_thread_refused_first),
      snd (createThread ex_remote ex_world ex_thread_refused_first))"
    by simp
  have k1: "0 < length (submissions (issued ex_world (snd (createThread ex_remote ex_world ex_thread_refused_first))))"
    by (simp add: ex_defs)
  have fails1: "snd (submissions (issued ex_world (snd (createThread ex_remote ex_world ex_thread_refused_first))) ! 0)
     = Inl (Error [0x6E])"
    by (simp add: ex_defs)
  have run2: "createThread ex_remote ex_world ex_thread_refused =
     (fst (createThread ex_remote ex_world ex_thread_refused),
      snd (createThread ex_remote ex_world ex_thread_refused))"
    by simp
  have k2: "1 < length (submissions (issued ex_world (snd (createThread ex_remote ex_world ex_thread_refused))))"
    by (simp add: ex_defs)
  have fails2: "snd (submissions (issued ex_world (snd (createThread ex_remote ex_world ex_thread_refused))) ! 1)
     = Inl (Error [0x6E])"
    by (simp add: ex_defs)
  from createThread_failure_is_remote_error [OF run1 k1 fails1 run2 k2 fails2] k1 fails1 k2 fails2
  show ?thesis by simp
qed

section \<open>The events of publishContent\<close>



lemma validPosts_nonblank: "s \<in> set (validPosts ps) \<Longrightarrow> trim s \<noteq> [] \<and> Some s \<in> set ps"
  by (induction ps rule: validPosts.induct) (auto split: if_splits)

text \<open>What \<open>createPost\<close> or \<open>createThread\<close> does for the valid posts, as \<open>publishContent\<close> calls it.\<close>

lemma create_events:
  assumes "(if ps = [] then createPost env b w p else createThread env w (p # ps)) = (res, w')"
  shows "\<exists>evs. trace w' = trace w @ evs \<and>
           map (post_text \<circ> fst) (submissions evs) = take (length (submissions evs)) (p # ps) \<and>
           (case res of
              Inr u \<Rightarrow> evs \<noteq> [] \<and> last evs = Notice (js ''Successfully posted to Bluesky!'') \<and>
                       map (post_text \<circ> fst) (accepted (submissions evs)) = p # ps \<and>
                       length (submissions evs) = length (p # ps)
            | Inl e \<Rightarrow> True)"
proof (cases "ps = []")
  case True
  with assms have cp: "createPost env b w p = (res, w')" by simp
  from createPost_events [OF cp] obtain evs where
    tr: "trace w' = trace w @ evs" and
    rs: "(case res of
              Inr u \<Rightarrow>
                (\<exists>d c r x. evs = [CreateRecord d c r (Inr x),
                                  Notice (js ''Successfully posted to Bluesky!'')] \<and>
                           post_text r = p \<and> reply r = None)
            | Inl e \<Rightarrow>
                evs = [ConsoleError (js ''Failed to post:'') e,
                       Notice (js ''Failed to post: '' @ message e)] \<and>
                (session_did b = None \<or> session_did b = Some []) \<or>
                (\<exists>d c r. evs = [CreateRecord d c r (Inl e),
                                ConsoleError (js ''Failed to post:'') e,
                                Notice (js ''Failed to post: '' @ message e)] \<and>
                         post_text r = p \<and> reply r = None \<and> session_did b = Some d \<and> d \<noteq> []))"
    by blast
  show ?thesis
  proof (cases res)
    case (Inl e)
    with rs tr True show ?thesis
      by (intro exI [of _ evs]) auto
  next
    case (Inr u)
    with rs tr True show ?thesis
      by (intro exI [of _ evs]) auto
  qed
next
  case False
  with assms have ct: "createThread env w (p # ps) = (res, w')" by simp
  have ne: "p # ps \<noteq> []" by simp
  from createThread_events [OF ct ne] obtain acc tail where
    tr: "trace w' = trace w @ concat (map round_events acc) @ tail" and
    tx: "map (post_text \<circ> fst) acc = take (length acc) (p # ps)" and
    rs: "(case res of
        Inr u \<Rightarrow> tail = [Notice (js ''Successfully posted to Bluesky!'')] \<and>
                 length acc = length (p # ps)
      | Inl e \<Rightarrow> length acc < length (p # ps) \<and>
          (tail = [DetectFacets ((p # ps) ! length acc) (Inl e)] \<or>
           (\<exists>q f. tail = [DetectFacets ((p # ps) ! length acc) (Inr f), AgentPost q (Inl e)] \<and>
                  post_text q = (p # ps) ! length acc)))"
    by blast
  have subs: "submissions (concat (map round_events acc) @ tail) =
                map (\<lambda>(p, x). (p, Inr x)) acc @ submissions tail"
    by (simp add: submissions_append submissions_rounds)
  have txs: "map (post_text \<circ> fst) (map (\<lambda>(p, x). (p, Inr x)) acc) = take (length acc) (p # ps)"
    using tx by (simp add: case_prod_beta comp_def)
  show ?thesis
  proof (cases res)
    case (Inr u)
    with rs have tl: "tail = [Notice (js ''Successfully posted to Bluesky!'')]"
      and ln: "length acc = length (p # ps)" by simp_all
    from tl have st: "submissions tail = []" by simp
    have "map (post_text \<circ> fst) (submissions (concat (map round_events acc) @ tail)) =
            take (length (submissions (concat (map round_events acc) @ tail))) (p # ps)"
      unfolding subs st using txs by simp
    moreover have "map (post_text \<circ> fst) (accepted (submissions (concat (map round_events acc) @ tail))) = p # ps"
      unfolding subs st using tx ln by (simp add: accepted_Inr)
    moreover have "length (submissions (concat (map round_events acc) @ tail)) = length (p # ps)"
      unfolding subs st using ln by simp
    ultimately show ?thesis
      using tr tl Inr by (intro exI [of _ "concat (map round_events acc) @ tail"]) simp
  next
    case (Inl e)
    with rs have short: "length acc < length (p # ps)" by simp
    from rs Inl consider
      (detect) "submissions tail = []"
      | (submit) q where "submissions tail = [(q, Inl e)]" "post_text q = (p # ps) ! length acc"
      by auto
    then have "map (post_text \<circ> fst) (submissions (concat (map round_events acc) @ tail)) =
            take (length (submissions (concat (map round_events acc) @ tail))) (p # ps)"
    proof cases
      case detect
      then show ?thesis unfolding subs using txs by simp
    next
      case submit
      have "map (post_text \<circ> fst) (map (\<lambda>(p, x). (p, Inr x)) acc @ [(q, Inl e)]) =
              take (Suc (length acc)) (p # ps)"
        using txs submit short by (simp only: map_append take_Suc_conv_app_nth) simp
      then show ?thesis unfolding subs submit by simp
    qed
    with tr Inl show ?thesis
      by (intro exI [of _ "concat (map round_events acc) @ tail"]) simp
  qed
qed

lemma publishContent_cases:
  assumes pc: "publishContent env t w = (t', w')"
  shows "(t' = t \<and> w' = w \<and> (isPosting t \<or> validPosts (posts t) = [])) \<or>
         (\<not> isPosting t \<and> validPosts (posts t) \<noteq> [] \<and> \<not> isPosting t' \<and>
          issued w w' \<noteq> [] \<and>
          map (post_text \<circ> fst) (submissions (issued w w')) =
            take (length (submissions (issued w w'))) (validPosts (posts t)) \<and>
          ((\<exists>e. posts t' = posts t \<and> last (issued w w') = ConsoleError (js ''Failed to post:'') e) \<or>
           (posts t' = [Some []] \<and>
            last (issued w w') = Notice (js ''Successfully posted to Bluesky!'') \<and>
            map (post_text \<circ> fst) (accepted (submissions (issued w w'))) = validPosts (posts t) \<and>
            length (submissions (issued w w')) = length (validPosts (posts t)))))"
proof (cases "isPosting t \<or> validPosts (posts t) = []")
  case True
  have "publishContent env t w = (t, w)"
  proof (cases "isPosting t")
    case True
    then show ?thesis by (simp add: publishContent_def)
  next
    case False
    with \<open>isPosting t \<or> validPosts (posts t) = []\<close> have "validPosts (posts t) = []" by simp
    with False show ?thesis by (simp add: publishContent_def)
  qed
  with pc True show ?thesis by simp
next
  case False
  then obtain p ps where vp: "validPosts (posts t) = p # ps" and idle: "\<not> isPosting t"
    by (cases "validPosts (posts t)") auto
  obtain r1 b w1 where lg: "login env (tab_bot t) w = (r1, b, w1)"
    by (cases "login env (tab_bot t) w") auto
  from login_events [OF lg] obtain evs1 where
    tr1: "trace w1 = trace w @ evs1" and s1: "submissions evs1 = []"
    by blast
  show ?thesis
  proof (cases r1)
    case (Inl e)
    with pc vp idle lg have t': "t' = t\<lparr>isPosting := False, tab_bot := b\<rparr>"
      and w': "w' = emit (ConsoleError (js ''Failed to post:'') e) w1"
      by (simp_all add: publishContent_def)
    have iss: "issued w w' = evs1 @ [ConsoleError (js ''Failed to post:'') e]"
      by (rule issued_append) (simp add: w' emit_def tr1)
    show ?thesis
      using vp idle t' s1 by (simp add: iss submissions_append)
  next
    case (Inr u)
    obtain r2 w2 where cr: "(if ps = [] then createPost env b w1 p
                            else createThread env w1 (p # ps)) = (r2, w2)"
      by (cases "if ps = [] then createPost env b w1 p else createThread env w1 (p # ps)") auto
    from create_events [OF cr] obtain evs2 where
      tr2: "trace w2 = trace w1 @ evs2" and
      tx2: "map (post_text \<circ> fst) (submissions evs2) = take (length (submissions evs2)) (p # ps)" and
      rs2: "(case r2 of
              Inr u \<Rightarrow> evs2 \<noteq> [] \<and> last evs2 = Notice (js ''Successfully posted to Bluesky!'') \<and>
                       map (post_text \<circ> fst) (accepted (submissions evs2)) = p # ps \<and>
                       length (submissions evs2) = length (p # ps)
            | Inl e \<Rightarrow> True)"
      by blast
    show ?thesis
    proof (cases r2)
      case (Inl e)
      with pc vp idle lg Inr cr have t': "t' = t\<lparr>isPosting := False, tab_bot := b\<rparr>"
        and w': "w' = emit (ConsoleError (js ''Failed to post:'') e) w2"
        by (simp_all add: publishContent_def)
      have iss: "issued w w' = evs1 @ evs2 @ [ConsoleError (js ''Failed to post:'') e]"
        by (rule issued_append) (simp add: w' emit_def tr1 tr2)
      show ?thesis
        using vp idle t' s1 tx2 by (simp add: iss submissions_append)
    next
      case (Inr u')
      with pc vp idle lg \<open>r1 = Inr u\<close> cr
      have t': "t' = t\<lparr>posts := [Some []], isPosting := False, tab_bot := b\<rparr>"
        and w': "w' = w2"
        by (simp_all add: publishContent_def)
      have iss: "issued w w' = evs1 @ evs2"
        by (rule issued_append) (simp add: w' tr1 tr2)
      from rs2 Inr have "evs2 \<noteq> []" "last evs2 = Notice (js ''Successfully posted to Bluesky!'')"
        "map (post_text \<circ> fst) (accepted (submissions evs2)) = p # ps"
        "length (submissions evs2) = length (p # ps)"
        by simp_all
      then show ?thesis
        using vp idle t' s1 tx2 by (simp add: iss submissions_append)
    qed
  qed
qed

lemmas ex_tab_defs = ex_tab_def ex_tab_blank_def ex_tab_single_def publishContent_def
  trim_def isWhiteSpace_def

section \<open>Zero segments\<close>

text \<open>
  Claim C5 as stated (invoked with zero segments, the publish operation fails fast) fails:
  \<open>createThread\<close> with no text does not fail, it returns normally.
\<close>

theorem createThread_no_segments_counterexample:
  "fst (createThread ex_remote ex_world []) = Inr () \<and>
   \<not> isl (fst (createThread ex_remote ex_world []))"
  by (simp add: createThread_def)

text \<open>
  Claim C5, amended.  Invoked with zero segments, \<open>createThread\<close> returns at once and
  normally: it raises no error and leaves the world as it was, so it issues no submission
  and shows no notice.  When every segment of the editor is blank, \<open>publishContent\<close>
  returns at once, without login and without submission.
\<close>

theorem createThread_no_segments:
  "createThread env w [] = (Inr (), w) \<and>
   (validPosts (posts t) = [] \<longrightarrow> publishContent env t w = (t, w))"
  by (simp add: createThread_def publishContent_def)

theorem createThread_no_segments_witness:
  "validPosts (posts ex_tab_blank) = [] \<and>
   publishContent ex_remote ex_tab_blank ex_world = (ex_tab_blank, ex_world) \<and>
   createThread ex_remote ex_world [] = (Inr (), ex_world) \<and>
   submissions (issued ex_world (snd (createThread ex_remote ex_world []))) = []"
proof -
  have blank: "validPosts (posts ex_tab_blank) = []"
    by (simp add: ex_tab_blank_def trim_def isWhiteSpace_def)
  from createThread_no_segments [of ex_remote ex_world ex_tab_blank] blank
  show ?thesis by (simp add: issued_same)
qed

section \<open>A single segment\<close>

lemma createPost_one_submission:
  assumes live: "session_did b = Some did" "did \<noteq> []"
    and cp: "createPost env b w txt = (res, w')"
  shows "\<exists>evs r out. trace w' = trace w @ evs \<and> submissions evs = [(r, out)] \<and>
           post_text r = txt \<and> reply r = None"
proof -
  from createPost_events [OF cp] obtain evs where
    tr: "trace w' = trace w @ evs" and
    rs: "(case res of
              Inr u \<Rightarrow>
                (\<exists>d c r x. evs = [CreateRecord d c r (Inr x),
                                  Notice (js ''Successfully posted to Bluesky!'')] \<and>
                           post_text r = txt \<and> reply r = None)
            | Inl e \<Rightarrow>
                evs = [ConsoleError (js ''Failed to post:'') e,
                       Notice (js ''Failed to post: '' @ message e)] \<and>
                (session_did b = None \<or> session_did b = Some []) \<or>
                (\<exists>d c r. evs = [CreateRecord d c r (Inl e),
                                ConsoleError (js ''Failed to post:'') e,
                                Notice (js ''Failed to post: '' @ message e)] \<and>
                         post_text r = txt \<and> reply r = None \<and> session_did b = Some d \<and> d \<noteq> []))"
    by blast
  show ?thesis
  proof (cases res)
    case (Inr u)
    with rs obtain d c r x where
      "evs = [CreateRecord d c r (Inr x), Notice (js ''Successfully posted to Bluesky!'')]"
      "post_text r = txt" "reply r = None"
      by auto
    with tr show ?thesis
      by (intro exI [of _ evs] exI [of _ r] exI [of _ "Inr x"]) simp
  next
    case (Inl e)
    with rs live obtain d c r where
      "evs = [CreateRecord d c r (Inl e), ConsoleError (js ''Failed to post:'') e,
              Notice (js ''Failed to post: '' @ message e)]"
      "post_text r = txt" "reply r = None"
      by auto
    with tr show ?thesis
      by (intro exI [of _ evs] exI [of _ r] exI [of _ "Inl e"]) simp
  qed
qed

lemma createThread_single:
  assumes det: "detectFacets env (trace w) txt = Inr f"
    and run: "createThread env w [txt] = (res, w')"
  shows "\<exists>r out. submissions (issued w w') = [(r, out)] \<and> post_text r = txt \<and> reply r = None"
proof -
  define r :: "'a feed_post" where
    "r = \<lparr>post_text = txt, createdAt = None, reply = None, facets = Some f\<rparr>"
  define w1 where "w1 = emit (DetectFacets txt (Inr f)) w"
  show ?thesis
  proof (cases "post env (trace w1) r")
    case (Inl e)
    with det run have "w' = emit (AgentPost r (Inl e)) w1"
      by (simp add: createThread_def Let_def r_def w1_def)
    then have "issued w w' = [DetectFacets txt (Inr f), AgentPost r (Inl e)]"
      by (simp add: issued_def emit_def w1_def)
    then show ?thesis by (simp add: r_def)
  next
    case (Inr x)
    with det run have "w' = emit (Notice (js ''Successfully posted to Bluesky!''))
                              (emit (AgentPost r (Inr x)) w1)"
      by (simp add: createThread_def Let_def r_def w1_def)
    then have "issued w w' = [DetectFacets txt (Inr f), AgentPost r (Inr x),
                              Notice (js ''Successfully posted to Bluesky!'')]"
      by (simp add: issued_def emit_def w1_def)
    then show ?thesis by (simp add: r_def)
  qed
qed

text \<open>
  Claim C8.  With a session in the agent, \<open>createPost\<close> issues exactly one submission, of a
  record that carries the text given and no reply.  So does \<open>publishContent\<close> when the
  editor holds exactly one segment that is not blank and the login succeeds and leaves
  the agent with a session; and so does \<open>createThread\<close> on a single text whose facets are
  detected.
\<close>

theorem publish_single_segment:
  "(session_did b = Some did \<and> did \<noteq> [] \<and> createPost env b w txt = (res, wp) \<longrightarrow>
      (\<exists>r out. submissions (issued w wp) = [(r, out)] \<and> post_text r = txt \<and> reply r = None)) \<and>
   (\<not> isPosting t \<and> validPosts (posts t) = [p] \<and>
    blueskyIdentifier (plugin_settings w) \<noteq> [] \<and> blueskyAppPassword (plugin_settings w) \<noteq> [] \<and>
    authenticate env (trace w) (blueskyIdentifier (plugin_settings w))
      (blueskyAppPassword (plugin_settings w)) = (Inr (), Some did) \<and> did \<noteq> [] \<and>
    publishContent env t w = (t', w') \<longrightarrow>
      (\<exists>r out. submissions (issued w w') = [(r, out)] \<and> post_text r = p \<and> reply r = None)) \<and>
   (detectFacets env (trace w) txt = Inr f \<and> createThread env w [txt] = (res', wt) \<longrightarrow>
      (\<exists>r out. submissions (issued w wt) = [(r, out)] \<and> post_text r = txt \<and> reply r = None))"
proof (intro conjI impI)
  assume "detectFacets env (trace w) txt = Inr f \<and> createThread env w [txt] = (res', wt)"
  then have "detectFacets env (trace w) txt = Inr f" "createThread env w [txt] = (res', wt)"
    by simp_all
  then show "\<exists>r out. submissions (issued w wt) = [(r, out)] \<and> post_text r = txt \<and> reply r = None"
    by (rule createThread_single)
next
  assume a: "session_did b = Some did \<and> did \<noteq> [] \<and> createPost env b w txt = (res, wp)"
  then have "session_did b = Some did" "did \<noteq> []" "createPost env b w txt = (res, wp)"
    by simp_all
  from createPost_one_submission [OF this] obtain evs r out where
    "trace wp = trace w @ evs" "submissions evs = [(r, out)]" "post_text r = txt" "reply r = None"
    by blast
  then show "\<exists>r out. submissions (issued w wp) = [(r, out)] \<and> post_text r = txt \<and> reply r = None"
    using issued_append [of wp w evs] by auto
next
  assume a: "\<not> isPosting t \<and> validPosts (posts t) = [p] \<and>
    blueskyIdentifier (plugin_settings w) \<noteq> [] \<and> blueskyAppPassword (plugin_settings w) \<noteq> [] \<and>
    authenticate env (trace w) (blueskyIdentifier (plugin_settings w))
      (blueskyAppPassword (plugin_settings w)) = (Inr (), Some did) \<and> did \<noteq> [] \<and>
    publishContent env t w = (t', w')"
  then have idle: "\<not> isPosting t" and one: "validPosts (posts t) = [p]"
    and pc: "publishContent env t w = (t', w')"
    by simp_all
  define b where "b = (tab_bot t)\<lparr>session_did := Some did\<rparr>"
  define w0 where "w0 = emit (AgentLogin (blueskyIdentifier (plugin_settings w))
                         (blueskyAppPassword (plugin_settings w)) (Inr ())) w"
  from a have lg: "login env (tab_bot t) w = (Inr (), b, w0)"
    by (simp add: login_def b_def w0_def)
  have live: "session_did b = Some did" "did \<noteq> []"
    using a by (simp_all add: b_def)
  obtain r2 w2 where cp: "createPost env b w0 p = (r2, w2)"
    by (cases "createPost env b w0 p") auto
  from createPost_one_submission [OF live cp] obtain evs r out where
    tr: "trace w2 = trace w0 @ evs" and sub: "submissions evs = [(r, out)]" and
    rp: "post_text r = p" "reply r = None"
    by blast
  have "\<exists>tl. trace w' = trace w2 @ tl \<and> submissions tl = []"
  proof (cases r2)
    case (Inl e)
    with pc idle one lg cp have "w' = emit (ConsoleError (js ''Failed to post:'') e) w2"
      by (simp add: publishContent_def)
    then show ?thesis
      by (intro exI [of _ "[ConsoleError (js ''Failed to post:'') e]"]) (simp add: emit_def)
  next
    case (Inr u)
    with pc idle one lg cp have "w' = w2"
      by (simp add: publishContent_def)
    then show ?thesis by simp
  qed
  then obtain tl where tl: "trace w' = trace w2 @ tl" "submissions tl = []"
    by blast
  have "trace w' = trace w @ ([AgentLogin (blueskyIdentifier (plugin_settings w))
                         (blueskyAppPassword (plugin_settings w)) (Inr ())] @ evs @ tl)"
    using tl tr by (simp add: w0_def emit_def)
  from issued_append [OF this] sub tl
  have "submissions (issued w w') = [(r, out)]"
    by (simp add: submissions_append)
  with rp show "\<exists>r out. submissions (issued w w') = [(r, out)] \<and> post_text r = p \<and> reply r = None"
    by blast
qed

theorem publish_single_segment_witness:
  "session_did ex_bot = Some [0x64, 0x69, 0x64] \<and>
   map (\<lambda>s. (post_text (fst s), reply (fst s)))
     (submissions (issued ex_world (snd (createPost ex_remote ex_bot ex_world [0x61]))))
     = [([0x61], None)] \<and>
   \<not> isPosting ex_tab_single \<and> validPosts (posts ex_tab_single) = [[0x61]] \<and>
   authenticate ex_remote (trace ex_world) (blueskyIdentifier (plugin_settings ex_world))
      (blueskyAppPassword (plugin_settings ex_world)) = (Inr (), Some [0x64, 0x69, 0x64]) \<and>
   map (\<lambda>s. (post_text (fst s), reply (fst s)))
     (submissions (issued ex_world (snd (publishContent ex_remote ex_tab_single ex_world))))
     = [([0x61], None)] \<and>
   detectFacets ex_remote (trace ex_world) [0x61] = Inr 1 \<and>
   map (\<lambda>s. (post_text (fst s), reply (fst s)))
     (submissions (issued ex_world (snd (createThread ex_remote ex_world [[0x61]]))))
     = [([0x61], None)]"
proof -
  have live: "session_did ex_bot = Some [0x64, 0x69, 0x64]" "[0x64, 0x69, 0x64] \<noteq> ([] :: jsstring)"
    by (simp_all add: ex_bot_def)
  have cp: "createPost ex_remote ex_bot ex_world [0x61] =
              (fst (createPost ex_remote ex_bot ex_world [0x61]),
               snd (createPost ex_remote ex_bot ex_world [0x61]))"
    by simp
  have idle: "\<not> isPosting ex_tab_single" and one: "validPosts (posts ex_tab_single) = [[0x61]]"
    by (simp_all add: ex_tab_single_def trim_def isWhiteSpace_def)
  have creds: "blueskyIdentifier (plugin_settings ex_world) \<noteq> []"
      "blueskyAppPassword (plugin_settings ex_world) \<noteq> []"
    by (simp_all add: ex_world_def)
  have auth: "authenticate ex_remote (trace ex_world) (blueskyIdentifier (plugin_settings ex_world))
      (blueskyAppPassword (plugin_settings ex_world)) = (Inr (), Some [0x64, 0x69, 0x64])"
    by (simp add: ex_remote_def)
  have pc: "publishContent ex_remote ex_tab_single ex_world =
              (fst (publishContent ex_remote ex_tab_single ex_world),
               snd (publishContent ex_remote ex_tab_single ex_world))"
    by simp
  have det: "detectFacets ex_remote (trace ex_world) [0x61] = Inr 1"
    by (simp add: ex_remote_def)
  have ct: "createThread ex_remote ex_world [[0x61]] =
              (fst (createThread ex_remote ex_world [[0x61]]),
               snd (createThread ex_remote ex_world [[0x61]]))"
    by simp
  note inst = publish_single_segment [where b = ex_bot and did = "[0x64, 0x69, 0x64]"
      and env = ex_remote and w = ex_world and ?txt = "[0x61]"
      and res = "fst (createPost ex_remote ex_bot ex_world [0x61])"
      and wp = "snd (createPost ex_remote ex_bot ex_world [0x61])"
      and t = ex_tab_single and p = "[0x61]"
      and t' = "fst (publishContent ex_remote ex_tab_single ex_world)"
      and w' = "snd (publishContent ex_remote ex_tab_single ex_world)"
      and f = 1
      and res' = "fst (createThread ex_remote ex_world [[0x61]])"
      and wt = "snd (createThread ex_remote ex_world [[0x61]])"]
  from inst live cp have "\<exists>r out. submissions (issued ex_world (snd (createPost ex_remote ex_bot ex_world [0x61])))
       = [(r, out)] \<and> post_text r = [0x61] \<and> reply r = None"
    by blast
  then have first: "map (\<lambda>s. (post_text (fst s), reply (fst s)))
     (submissions (issued ex_world (snd (createPost ex_remote ex_bot ex_world [0x61]))))
     = [([0x61], None)]"
    by auto
  from inst live idle one creds auth pc
  have "\<exists>r out. submissions (issued ex_world (snd (publishContent ex_remote ex_tab_single ex_world)))
       = [(r, out)] \<and> post_text r = [0x61] \<and> reply r = None"
    by blast
  then have second: "map (\<lambda>s. (post_text (fst s), reply (fst s)))
     (submissions (issued ex_world (snd (publishContent ex_remote ex_tab_single ex_world))))
     = [([0x61], None)]"
    by auto
  from inst det ct
  have "\<exists>r out. submissions (issued ex_world (snd (createThread ex_remote ex_world [[0x61]])))
       = [(r, out)] \<and> post_text r = [0x61] \<and> reply r = None"
    by blast
  then have third: "map (\<lambda>s. (post_text (fst s), reply (fst s)))
     (submissions (issued ex_world (snd (createThread ex_remote ex_world [[0x61]]))))
     = [([0x61], None)]"
    by auto
  from first second third live idle one auth det show ?thesis by simp
qed

section \<open>The editor filters its segments\<close>



section \<open>The segment list and the listeners\<close>

lemma array_set_nonempty: "array_set xs i v \<noteq> []"
  by (auto simp: array_set_def)

lemma array_set_nth: "array_set xs i v ! i = Some v"
  by (auto simp: array_set_def nth_append)

lemma splice1_length: "1 < length xs \<Longrightarrow> splice1 xs i \<noteq> []"
  by (cases xs; cases i) (auto simp: splice1_def)

lemma removePost_nonempty: "posts t \<noteq> [] \<Longrightarrow> posts (removePost i t) \<noteq> []"
proof (cases "length (posts t) = 1")
  case True
  assume "posts t \<noteq> []"
  with True show ?thesis by (simp add: removePost_def)
next
  case False
  assume "posts t \<noteq> []"
  with False have "1 < length (posts t)"
    by (cases "posts t") auto
  with False show ?thesis
    by (simp add: removePost_def splice1_length)
qed

lemma publishContent_posts:
  assumes "publishContent env t w = (t', w')"
  shows "posts t' = (if issued w w' \<noteq> [] \<and>
                        last (issued w w') = Notice (js ''Successfully posted to Bluesky!'')
                     then [Some []] else posts t)"
  using publishContent_cases [OF assms] by (auto simp: issued_same)

lemma publishContent_result:
  assumes "\<not> isPosting t" and "validPosts (posts t) = p # ps"
    and "login env (tab_bot t) w = (r1, b, w1)"
    and "(if ps = [] then createPost env b w1 p else createThread env w1 (p # ps)) = (r2, w2)"
    and "publishContent env t w = (t', w')"
  shows "posts t' = (if isl r1 \<or> isl r2 then posts t else [Some []])"
  using assms by (cases r1; cases r2) (auto simp: publishContent_def)

section \<open>An activation, cut at its awaits, is publishContent\<close>

lemma complete_thread:
  "complete env (ThreadLoop l r ts) t w =
     (case createThread_loop env l r w ts of
        (Inl e, w') \<Rightarrow> (t\<lparr>isPosting := False\<rparr>, emit (ConsoleError (js ''Failed to post:'') e) w')
      | (Inr u, w') \<Rightarrow>
          (t\<lparr>posts := [Some []], isPosting := False\<rparr>,
           emit (Notice (js ''Successfully posted to Bluesky!'')) w'))"
proof (induction ts arbitrary: l r w)
  case Nil
  show ?case
    by (subst complete.simps) (simp add: publishContent_done_def)
next
  case (Cons tx rest)
  show ?case
  proof (cases "detectFacets env (trace w) tx")
    case (Inl e)
    then show ?thesis
      by (subst complete.simps) (simp add: publishContent_failed_def)
  next
    case (Inr fs)
    define w1 where "w1 = emit (DetectFacets tx (Inr fs)) w"
    define p where "p = \<lparr>post_text = tx, createdAt = None,
         reply = (case l of None \<Rightarrow> None | Some y \<Rightarrow> Some \<lparr>root = r, parent = y\<rparr>),
         facets = Some fs\<rparr>"
    have first: "complete env (ThreadLoop l r (tx # rest)) t w = complete env (AwaitAgentPost p r rest) t w1"
      using Inr by (subst complete.simps) (simp add: Let_def w1_def p_def)
    show ?thesis
    proof (cases "post env (trace w1) p")
      case (Inl e)
      then have "complete env (AwaitAgentPost p r rest) t w1 =
                   (t\<lparr>isPosting := False\<rparr>,
                    emit (ConsoleError (js ''Failed to post:'') e) (emit (AgentPost p (Inl e)) w1))"
        by (subst complete.simps) (simp add: publishContent_failed_def)
      with first Inl \<open>detectFacets env (trace w) tx = Inr fs\<close> show ?thesis
        by (simp add: Let_def w1_def p_def del: complete.simps)
    next
      case (Inr x)
      define w2 where "w2 = emit (AgentPost p (Inr x)) w1"
      define r' where "r' = (case r of None \<Rightarrow> Some x | Some y \<Rightarrow> Some y)"
      from Inr have "complete env (AwaitAgentPost p r rest) t w1 =
                       complete env (ThreadLoop (Some x) r' rest) t w2"
        by (subst complete.simps)
           (simp add: Let_def w2_def r'_def ref_eta cong: option.case_cong)
      moreover have "createThread_loop env l r w (tx # rest) =
                       createThread_loop env (Some x) r' w2 rest"
        using Inr \<open>detectFacets env (trace w) tx = Inr fs\<close>
        by (simp add: Let_def w1_def p_def w2_def r'_def ref_eta cong: option.case_cong)
      ultimately show ?thesis
        using first Cons.IH [of "Some x" r' w2] by (simp del: complete.simps)
    qed
  qed
qed

lemma publishContent_complete:
  fixes env :: "'f remote"
  shows "publishContent env t w =
     (case publishContent_begin t of
        (t1, None) \<Rightarrow> (t1, w)
      | (t1, Some a) \<Rightarrow> complete env a t1 w)"
proof (cases "isPosting t")
  case True
  then show ?thesis
    by (simp add: publishContent_def publishContent_begin_def)
next
  case False
  show ?thesis
  proof (cases "validPosts (posts t)")
    case Nil
    with False show ?thesis
      by (simp add: publishContent_def publishContent_begin_def)
  next
    case (Cons p ps)
    obtain r1 b w1 where lg: "login env (tab_bot t) w = (r1, b, w1)"
      by (cases "login env (tab_bot t) w") auto
    have start: "publishContent_begin t =
                   (t\<lparr>isPosting := True\<rparr>, Some (AwaitLogin p ps :: 'f activation))"
      using False Cons by (simp add: publishContent_begin_def)
    show ?thesis
    proof (cases r1)
      case (Inl e)
      with lg have "complete env (AwaitLogin p ps) (t\<lparr>isPosting := True\<rparr>) w =
                      (t\<lparr>isPosting := False, tab_bot := b\<rparr>,
                       emit (ConsoleError (js ''Failed to post:'') e) w1)"
        by (subst complete.simps) (simp add: publishContent_failed_def)
      with False Cons lg Inl start show ?thesis
        by (simp add: publishContent_def del: complete.simps)
    next
      case (Inr u)
      show ?thesis
      proof (cases "ps = []")
        case True
        obtain r2 w2 where cp: "createPost env b w1 p = (r2, w2)"
          by (cases "createPost env b w1 p") auto
        have "complete env (AwaitLogin p ps) (t\<lparr>isPosting := True\<rparr>) w =
                complete env (AwaitCreatePost p) (t\<lparr>isPosting := True, tab_bot := b\<rparr>) w1"
          using lg Inr True by (subst complete.simps) simp
        also have "\<dots> = (case r2 of
                    Inl e \<Rightarrow> (t\<lparr>isPosting := False, tab_bot := b\<rparr>,
                               emit (ConsoleError (js ''Failed to post:'') e) w2)
                  | Inr u' \<Rightarrow> (t\<lparr>posts := [Some []], isPosting := False, tab_bot := b\<rparr>, w2))"
          using cp
          by (subst complete.simps)
             (simp add: publishContent_failed_def publishContent_done_def split: sum.splits)
        finally show ?thesis
          using False Cons lg Inr True cp start
          by (simp add: publishContent_def del: complete.simps split: sum.splits)
      next
        case many: False
        obtain r2 w2 where lp: "createThread_loop env None None w1 (p # ps) = (r2, w2)"
          by (cases "createThread_loop env None None w1 (p # ps)") auto
        have "complete env (AwaitLogin p ps) (t\<lparr>isPosting := True\<rparr>) w =
                complete env (ThreadLoop None None (p # ps)) (t\<lparr>isPosting := True, tab_bot := b\<rparr>) w1"
          using lg Inr many by (subst complete.simps) simp
        also have "\<dots> = (case r2 of
                    Inl e \<Rightarrow> (t\<lparr>isPosting := False, tab_bot := b\<rparr>,
                               emit (ConsoleError (js ''Failed to post:'') e) w2)
                  | Inr u' \<Rightarrow> (t\<lparr>posts := [Some []], isPosting := False, tab_bot := b\<rparr>,
                                emit (Notice (js ''Successfully posted to Bluesky!'')) w2))"
          using lp by (simp only: complete_thread) (simp split: sum.splits)
        finally show ?thesis
          using False Cons lg Inr many lp start
          by (simp add: publishContent_def createThread_def del: complete.simps split: sum.splits)
      qed
    qed
  qed
qed

section \<open>What one step of an activation does\<close>

lemma publishContent_resume_trace:
  assumes "publishContent_resume env a t w = (a', t', w')"
  shows "\<exists>evs. trace w' = trace w @ evs \<and> evs \<noteq> [] \<and>
           (\<forall>q \<in> set (submissions evs). post_text (fst q) \<in> set (pending_texts a)) \<and>
           (case a' of
              Some b \<Rightarrow> set (pending_texts b) \<subseteq> set (pending_texts a) \<and> posts t' = posts t \<and>
                        isPosting t' = isPosting t
            | None \<Rightarrow> \<not> isPosting t' \<and>
                (posts t' = posts t \<and> (\<exists>e. last evs = ConsoleError (js ''Failed to post:'') e) \<or>
                 posts t' = [Some []] \<and> last evs = Notice (js ''Successfully posted to Bluesky!'')))"
proof (cases a)
  case (AwaitLogin p ps)
  obtain r1 b w1 where lg: "login env (tab_bot t) w = (r1, b, w1)"
    by (cases "login env (tab_bot t) w") auto
  from login_events [OF lg] obtain evs1 where
    tr1: "trace w1 = trace w @ evs1" and s1: "submissions evs1 = []" and
    ne: "case r1 of Inl e \<Rightarrow> evs1 \<noteq> [] | Inr u \<Rightarrow> evs1 \<noteq> []"
    by (cases r1) auto
  show ?thesis
  proof (cases r1)
    case (Inl e)
    with assms AwaitLogin lg have "a' = None" "t' = t\<lparr>tab_bot := b, isPosting := False\<rparr>"
      "w' = emit (ConsoleError (js ''Failed to post:'') e) w1"
      by (simp_all add: publishContent_failed_def)
    with tr1 s1 AwaitLogin show ?thesis
      by (intro exI [of _ "evs1 @ [ConsoleError (js ''Failed to post:'') e]"])
         (simp add: emit_def submissions_append)
  next
    case (Inr u)
    with assms AwaitLogin lg
    have "a' = Some (if ps = [] then AwaitCreatePost p else ThreadLoop None None (p # ps))"
      "t' = t\<lparr>tab_bot := b\<rparr>" "w' = w1"
      by simp_all
    with tr1 s1 ne Inr AwaitLogin show ?thesis
      by (intro exI [of _ evs1]) auto
  qed
next
  case (AwaitCreatePost p)
  obtain r2 w2 where cp: "createPost env (tab_bot t) w p = (r2, w2)"
    by (cases "createPost env (tab_bot t) w p") auto
  from createPost_events [OF cp] obtain evs where
    tr: "trace w2 = trace w @ evs" and
    rs: "(case r2 of
              Inr u \<Rightarrow>
                (\<exists>d c r x. evs = [CreateRecord d c r (Inr x),
                                  Notice (js ''Successfully posted to Bluesky!'')] \<and>
                           post_text r = p \<and> reply r = None)
            | Inl e \<Rightarrow>
                evs = [ConsoleError (js ''Failed to post:'') e,
                       Notice (js ''Failed to post: '' @ message e)] \<and>
                (session_did (tab_bot t) = None \<or> session_did (tab_bot t) = Some []) \<or>
                (\<exists>d c r. evs = [CreateRecord d c r (Inl e),
                                ConsoleError (js ''Failed to post:'') e,
                                Notice (js ''Failed to post: '' @ message e)] \<and>
                         post_text r = p \<and> reply r = None \<and>
                         session_did (tab_bot t) = Some d \<and> d \<noteq> []))"
    by blast
  show ?thesis
  proof (cases r2)
    case (Inl e)
    with assms AwaitCreatePost cp have "a' = None" "t' = t\<lparr>isPosting := False\<rparr>"
      "w' = emit (ConsoleError (js ''Failed to post:'') e) w2"
      by (simp_all add: publishContent_failed_def)
    moreover from rs Inl have "\<forall>q \<in> set (submissions evs). post_text (fst q) = p"
      by auto
    ultimately show ?thesis
      using tr AwaitCreatePost
      by (intro exI [of _ "evs @ [ConsoleError (js ''Failed to post:'') e]"])
         (simp add: emit_def submissions_append)
  next
    case (Inr u)
    with assms AwaitCreatePost cp have "a' = None" "t' = t\<lparr>posts := [Some []], isPosting := False\<rparr>"
      "w' = w2"
      by (simp_all add: publishContent_done_def)
    moreover from rs Inr have "\<forall>q \<in> set (submissions evs). post_text (fst q) = p"
      "evs \<noteq> []" "last evs = Notice (js ''Successfully posted to Bluesky!'')"
      by auto
    ultimately show ?thesis
      using tr AwaitCreatePost by (intro exI [of _ evs]) simp
  qed
next
  case (ThreadLoop l r ts)
  show ?thesis
  proof (cases ts)
    case Nil
    with assms ThreadLoop show ?thesis
      by (intro exI [of _ "[Notice (js ''Successfully posted to Bluesky!'')]"])
         (auto simp: publishContent_done_def emit_def)
  next
    case (Cons tx rest)
    show ?thesis
    proof (cases "detectFacets env (trace w) tx")
      case (Inl e)
      with assms ThreadLoop Cons show ?thesis
        by (intro exI [of _ "[DetectFacets tx (Inl e), ConsoleError (js ''Failed to post:'') e]"])
           (auto simp: publishContent_failed_def emit_def)
    next
      case (Inr fs)
      with assms ThreadLoop Cons show ?thesis
        by (intro exI [of _ "[DetectFacets tx (Inr fs)]"])
           (auto simp: emit_def Let_def)
    qed
  qed
next
  case (AwaitAgentPost p r rest)
  show ?thesis
  proof (cases "post env (trace w) p")
    case (Inl e)
    with assms AwaitAgentPost show ?thesis
      by (intro exI [of _ "[AgentPost p (Inl e), ConsoleError (js ''Failed to post:'') e]"])
         (auto simp: publishContent_failed_def emit_def)
  next
    case (Inr x)
    with assms AwaitAgentPost show ?thesis
      by (intro exI [of _ "[AgentPost p (Inr x)]"])
         (auto simp: emit_def Let_def)
  qed
qed

lemma publishContent_resume_posts:
  assumes "publishContent_resume env a t w = (a', t', w')"
  shows "posts t' = (if a' = None \<and> issued w w' \<noteq> [] \<and>
                        last (issued w w') = Notice (js ''Successfully posted to Bluesky!'')
                     then [Some []] else posts t)"
proof -
  from publishContent_resume_trace [OF assms] obtain evs where
    tr: "trace w' = trace w @ evs" and
    rs: "(case a' of
              Some b \<Rightarrow> set (pending_texts b) \<subseteq> set (pending_texts a) \<and> posts t' = posts t \<and>
                        isPosting t' = isPosting t
            | None \<Rightarrow> \<not> isPosting t' \<and>
                (posts t' = posts t \<and> (\<exists>e. last evs = ConsoleError (js ''Failed to post:'') e) \<or>
                 posts t' = [Some []] \<and> last evs = Notice (js ''Successfully posted to Bluesky!'')))"
    and ne: "evs \<noteq> []"
    by blast
  from issued_append [OF tr] rs ne show ?thesis
    by (cases a') auto
qed

lemma publishContent_begin_posts: "posts (fst (publishContent_begin t)) = posts t"
  by (simp add: publishContent_begin_def split: list.splits)

section \<open>The segment list of the editor is never empty\<close>

lemma step_nonempty:
  assumes "posts (ed_tab s) \<noteq> []"
  shows "posts (ed_tab (step env s a)) \<noteq> []"
proof (cases a)
  case AddPost
  then show ?thesis by (simp add: addPost_def)
next
  case (RemovePost i)
  with assms show ?thesis by (simp add: removePost_nonempty)
next
  case (HandlePostChange i v)
  then show ?thesis by (simp add: handlePostChange_def array_set_nonempty)
next
  case PublishContent
  have "posts (fst (publishContent_begin (ed_tab s) :: tab \<times> 'a activation option)) = posts (ed_tab s)"
    by (rule publishContent_begin_posts)
  with assms PublishContent show ?thesis
    by (cases "publishContent_begin (ed_tab s) :: tab \<times> 'a activation option")
       (auto split: option.splits)
next
  case (Settle k)
  show ?thesis
  proof (cases "k < length (in_flight s)")
    case False
    with assms Settle show ?thesis by simp
  next
    case True
    obtain a' t' w' where rs:
      "publishContent_resume env (in_flight s ! k) (ed_tab s) (ed_world s) = (a', t', w')"
      by (cases "publishContent_resume env (in_flight s ! k) (ed_tab s) (ed_world s)") auto
    from publishContent_resume_posts [OF rs] assms have "posts t' \<noteq> []"
      by (simp split: if_splits)
    with Settle True rs show ?thesis
      by (cases a') simp_all
  qed
qed

lemma run_nonempty: "posts (ed_tab s) \<noteq> [] \<Longrightarrow> posts (ed_tab (run env s acts)) \<noteq> []"
  unfolding run_def
  by (induction acts arbitrary: s) (simp_all add: step_nonempty)

text \<open>
  Claim C10.  The segment list of the editor starts as one empty segment; \<open>addPost\<close>
  appends one empty segment; \<open>removePost\<close> changes nothing when one segment is left.
  \<open>publishContent\<close> does not touch the list when it starts; each time it resumes after an
  await it leaves the list as it finds it, whatever the listeners have done to it
  meanwhile, except at its end when the publication has succeeded (its last event is the
  notice of success): then it sets the list to one empty segment.  Run with nothing in
  between, it leaves one empty segment when \<open>login\<close> and then \<open>createPost\<close> or
  \<open>createThread\<close> both return normally, and the list as it was otherwise.  So after any
  sequence of actions of the editor, with the calls awaited by pending publications
  settling at any moment in between, the list is not empty.
\<close>

theorem posts_never_empty:
  fixes env :: "'f remote"
  shows
  "posts new_BlueskyTab = [Some []] \<and>
   posts (addPost t) = posts t @ [Some []] \<and>
   (length (posts t) = 1 \<longrightarrow> removePost i t = t) \<and>
   posts (fst (publishContent_begin t :: tab \<times> 'f activation option)) = posts t \<and>
   (publishContent_resume env a ta wa = (a', ta', wa') \<longrightarrow>
      posts ta' = (if a' = None \<and> issued wa wa' \<noteq> [] \<and>
                      last (issued wa wa') = Notice (js ''Successfully posted to Bluesky!'')
                   then [Some []] else posts ta)) \<and>
   (publishContent env t w = (t', w') \<longrightarrow>
      posts t' = (if issued w w' \<noteq> [] \<and>
                     last (issued w w') = Notice (js ''Successfully posted to Bluesky!'')
                  then [Some []] else posts t)) \<and>
   (\<not> isPosting t \<and> validPosts (posts t) = p # ps \<and>
    login env (tab_bot t) w = (r1, b, w1) \<and>
    (if ps = [] then createPost env b w1 p else createThread env w1 (p # ps)) = (r2, w2) \<and>
    publishContent env t w = (t', w') \<longrightarrow>
      posts t' = (if isl r1 \<or> isl r2 then posts t else [Some []])) \<and>
   posts (ed_tab (run env (new_editor w) acts)) \<noteq> []"
proof (intro conjI impI)
  show "posts new_BlueskyTab = [Some []]"
    by (simp add: new_BlueskyTab_def)
  show "posts (addPost t) = posts t @ [Some []]"
    by (simp add: addPost_def)
  show "removePost i t = t" if "length (posts t) = 1"
    using that by (simp add: removePost_def)
  show "posts (fst (publishContent_begin t :: tab \<times> 'f activation option)) = posts t"
    by (rule publishContent_begin_posts)
  show "posts ta' = (if a' = None \<and> issued wa wa' \<noteq> [] \<and>
                      last (issued wa wa') = Notice (js ''Successfully posted to Bluesky!'')
                   then [Some []] else posts ta)"
    if "publishContent_resume env a ta wa = (a', ta', wa')"
    using that by (rule publishContent_resume_posts)
  show "posts t' = (if issued w w' \<noteq> [] \<and>
                     last (issued w w') = Notice (js ''Successfully posted to Bluesky!'')
                  then [Some []] else posts t)"
    if "publishContent env t w = (t', w')"
    using that by (rule publishContent_posts)
  show "posts t' = (if isl r1 \<or> isl r2 then posts t else [Some []])"
    if "\<not> isPosting t \<and> validPosts (posts t) = p # ps \<and>
        login env (tab_bot t) w = (r1, b, w1) \<and>
        (if ps = [] then createPost env b w1 p else createThread env w1 (p # ps)) = (r2, w2) \<and>
        publishContent env t w = (t', w')"
    using that by (intro publishContent_result [of t p ps env w r1 b w1 r2 w2 t' w']) simp_all
  show "posts (ed_tab (run env (new_editor w) acts)) \<noteq> []"
    by (rule run_nonempty) (simp add: new_editor_def new_BlueskyTab_def)
qed

lemmas ex_run_defs = run_def new_editor_def new_BlueskyTab_def ex_actions_def
  handlePostChange_def addPost_def removePost_def array_set_def splice1_def MAX_CHARS_def
  publishContent_begin_def publishContent_failed_def publishContent_done_def
  trim_def isWhiteSpace_def

theorem posts_never_empty_witness:
  "length (posts ex_tab_single) = 1 \<and>
   removePost 0 ex_tab_single = ex_tab_single \<and>
   fst (publishContent_resume ex_remote (AwaitCreatePost [0x61]) ex_tab_posting ex_world) = None \<and>
   last (issued ex_world
          (snd (snd (publishContent_resume ex_remote (AwaitCreatePost [0x61]) ex_tab_posting ex_world))))
     = Notice (js ''Successfully posted to Bluesky!'') \<and>
   posts (fst (snd (publishContent_resume ex_remote (AwaitCreatePost [0x61]) ex_tab_posting ex_world)))
     = [Some []] \<and>
   last (issued ex_world
          (snd (snd (publishContent_resume ex_remote (AwaitCreatePost [0x78]) ex_tab_posting ex_world))))
     = ConsoleError (js ''Failed to post:'') (Error [0x6E]) \<and>
   posts (fst (snd (publishContent_resume ex_remote (AwaitCreatePost [0x78]) ex_tab_posting ex_world)))
     = posts ex_tab_posting \<and>
   last (issued ex_world (snd (publishContent ex_remote ex_tab_single ex_world)))
     = Notice (js ''Successfully posted to Bluesky!'') \<and>
   posts (fst (publishContent ex_remote ex_tab_single ex_world)) = [Some []] \<and>
   \<not> isPosting ex_tab_refused \<and> validPosts (posts ex_tab_refused) = [[0x78]] \<and>
   fst (login ex_remote (tab_bot ex_tab_refused) ex_world) = Inr () \<and>
   fst (createPost ex_remote (fst (snd (login ex_remote (tab_bot ex_tab_refused) ex_world)))
          (snd (snd (login ex_remote (tab_bot ex_tab_refused) ex_world))) [0x78])
     = Inl (Error [0x6E]) \<and>
   posts (fst (publishContent ex_remote ex_tab_refused ex_world)) = posts ex_tab_refused \<and>
   isPosting (ed_tab (run ex_remote (new_editor ex_world) (take 4 ex_actions))) \<and>
   posts (ed_tab (run ex_remote (new_editor ex_world) (take 4 ex_actions)))
     = [Some [0x7A, 0x7A, 0x7A], Some []] \<and>
   posts (ed_tab (run ex_remote (new_editor ex_world) ex_actions)) = [Some []] \<and>
   posts (ed_tab (run ex_remote (new_editor ex_world) ex_actions)) \<noteq> []"
proof -
  have one: "length (posts ex_tab_single) = 1"
    by (simp add: ex_tab_single_def)
  have rs1: "publishContent_resume ex_remote (AwaitCreatePost [0x61]) ex_tab_posting ex_world =
      (fst (publishContent_resume ex_remote (AwaitCreatePost [0x61]) ex_tab_posting ex_world),
       fst (snd (publishContent_resume ex_remote (AwaitCreatePost [0x61]) ex_tab_posting ex_world)),
       snd (snd (publishContent_resume ex_remote (AwaitCreatePost [0x61]) ex_tab_posting ex_world)))"
    by simp
  have ok1: "fst (publishContent_resume ex_remote (AwaitCreatePost [0x61]) ex_tab_posting ex_world) = None"
    "issued ex_world
       (snd (snd (publishContent_resume ex_remote (AwaitCreatePost [0x61]) ex_tab_posting ex_world))) \<noteq> []"
    "last (issued ex_world
          (snd (snd (publishContent_resume ex_remote (AwaitCreatePost [0x61]) ex_tab_posting ex_world))))
     = Notice (js ''Successfully posted to Bluesky!'')"
    by (simp_all add: ex_defs ex_tab_posting_def publishContent_done_def publishContent_failed_def)
  have rs2: "publishContent_resume ex_remote (AwaitCreatePost [0x78]) ex_tab_posting ex_world =
      (fst (publishContent_resume ex_remote (AwaitCreatePost [0x78]) ex_tab_posting ex_world),
       fst (snd (publishContent_resume ex_remote (AwaitCreatePost [0x78]) ex_tab_posting ex_world)),
       snd (snd (publishContent_resume ex_remote (AwaitCreatePost [0x78]) ex_tab_posting ex_world)))"
    by simp
  have ko1: "last (issued ex_world
          (snd (snd (publishContent_resume ex_remote (AwaitCreatePost [0x78]) ex_tab_posting ex_world))))
     = ConsoleError (js ''Failed to post:'') (Error [0x6E])"
    by (simp add: ex_defs ex_tab_posting_def publishContent_done_def publishContent_failed_def)
  have pc1: "publishContent ex_remote ex_tab_single ex_world =
              (fst (publishContent ex_remote ex_tab_single ex_world),
               snd (publishContent ex_remote ex_tab_single ex_world))"
    by simp
  have pc2: "publishContent ex_remote ex_tab_refused ex_world =
              (fst (publishContent ex_remote ex_tab_refused ex_world),
               snd (publishContent ex_remote ex_tab_refused ex_world))"
    by simp
  have ok: "issued ex_world (snd (publishContent ex_remote ex_tab_single ex_world)) \<noteq> []"
    "last (issued ex_world (snd (publishContent ex_remote ex_tab_single ex_world)))
       = Notice (js ''Successfully posted to Bluesky!'')"
    by (simp_all add: ex_defs ex_tab_defs)
  have idle: "\<not> isPosting ex_tab_refused" and vp: "validPosts (posts ex_tab_refused) = [[0x78]]"
    by (simp_all add: ex_tab_refused_def trim_def isWhiteSpace_def)
  have lg: "login ex_remote (tab_bot ex_tab_refused) ex_world =
      (fst (login ex_remote (tab_bot ex_tab_refused) ex_world),
       fst (snd (login ex_remote (tab_bot ex_tab_refused) ex_world)),
       snd (snd (login ex_remote (tab_bot ex_tab_refused) ex_world)))"
    by simp
  have r1: "fst (login ex_remote (tab_bot ex_tab_refused) ex_world) = Inr ()"
    by (simp add: ex_defs ex_tab_refused_def)
  have r2: "fst (createPost ex_remote (fst (snd (login ex_remote (tab_bot ex_tab_refused) ex_world)))
          (snd (snd (login ex_remote (tab_bot ex_tab_refused) ex_world))) [0x78])
     = Inl (Error [0x6E])"
    by (simp add: ex_defs ex_tab_refused_def)
  have cr: "(if [] = ([] :: jsstring list)
             then createPost ex_remote (fst (snd (login ex_remote (tab_bot ex_tab_refused) ex_world)))
                    (snd (snd (login ex_remote (tab_bot ex_tab_refused) ex_world))) [0x78]
             else createThread ex_remote (snd (snd (login ex_remote (tab_bot ex_tab_refused) ex_world)))
                    ([0x78] # [])) =
            (fst (createPost ex_remote (fst (snd (login ex_remote (tab_bot ex_tab_refused) ex_world)))
                    (snd (snd (login ex_remote (tab_bot ex_tab_refused) ex_world))) [0x78]),
             snd (createPost ex_remote (fst (snd (login ex_remote (tab_bot ex_tab_refused) ex_world)))
                    (snd (snd (login ex_remote (tab_bot ex_tab_refused) ex_world))) [0x78]))"
    by simp
  have mid: "isPosting (ed_tab (run ex_remote (new_editor ex_world) (take 4 ex_actions)))"
    "posts (ed_tab (run ex_remote (new_editor ex_world) (take 4 ex_actions)))
       = [Some [0x7A, 0x7A, 0x7A], Some []]"
    by (simp_all add: ex_run_defs)
  have fin: "posts (ed_tab (run ex_remote (new_editor ex_world) ex_actions)) = [Some []]"
    by (simp add: ex_run_defs ex_defs)
  note a = posts_never_empty [where t = ex_tab_single and i = 0 and env = ex_remote
      and w = ex_world
      and t' = "fst (publishContent ex_remote ex_tab_single ex_world)"
      and w' = "snd (publishContent ex_remote ex_tab_single ex_world)" and acts = ex_actions
      and a = "AwaitCreatePost [0x61]" and ta = ex_tab_posting and wa = ex_world
      and a' = "fst (publishContent_resume ex_remote (AwaitCreatePost [0x61]) ex_tab_posting ex_world)"
      and ta' = "fst (snd (publishContent_resume ex_remote (AwaitCreatePost [0x61]) ex_tab_posting ex_world))"
      and wa' = "snd (snd (publishContent_resume ex_remote (AwaitCreatePost [0x61]) ex_tab_posting ex_world))"]
  note b = posts_never_empty [where t = ex_tab_refused and i = 0 and env = ex_remote
      and w = ex_world
      and t' = "fst (publishContent ex_remote ex_tab_refused ex_world)"
      and w' = "snd (publishContent ex_remote ex_tab_refused ex_world)" and acts = ex_actions
      and p = "[0x78]" and ps = "[]"
      and ?r1.0 = "fst (login ex_remote (tab_bot ex_tab_refused) ex_world)"
      and b = "fst (snd (login ex_remote (tab_bot ex_tab_refused) ex_world))"
      and ?w1.0 = "snd (snd (login ex_remote (tab_bot ex_tab_refused) ex_world))"
      and ?r2.0 = "fst (createPost ex_remote (fst (snd (login ex_remote (tab_bot ex_tab_refused) ex_world)))
                    (snd (snd (login ex_remote (tab_bot ex_tab_refused) ex_world))) [0x78])"
      and ?w2.0 = "snd (createPost ex_remote (fst (snd (login ex_remote (tab_bot ex_tab_refused) ex_world)))
                    (snd (snd (login ex_remote (tab_bot ex_tab_refused) ex_world))) [0x78])"
      and a = "AwaitCreatePost [0x78]" and ta = ex_tab_posting and wa = ex_world
      and a' = "fst (publishContent_resume ex_remote (AwaitCreatePost [0x78]) ex_tab_posting ex_world)"
      and ta' = "fst (snd (publishContent_resume ex_remote (AwaitCreatePost [0x78]) ex_tab_posting ex_world))"
      and wa' = "snd (snd (publishContent_resume ex_remote (AwaitCreatePost [0x78]) ex_tab_posting ex_world))"]
  from a one pc1 ok rs1 ok1 have "removePost 0 ex_tab_single = ex_tab_single"
    "posts (fst (publishContent ex_remote ex_tab_single ex_world)) = [Some []]"
    "posts (fst (snd (publishContent_resume ex_remote (AwaitCreatePost [0x61]) ex_tab_posting ex_world)))
       = [Some []]"
    "posts (ed_tab (run ex_remote (new_editor ex_world) ex_actions)) \<noteq> []"
    by simp_all
  moreover from b [THEN conjunct2, THEN conjunct2, THEN conjunct2, THEN conjunct2,
      THEN conjunct2, THEN conjunct2, THEN conjunct1] idle vp lg cr pc2 r1 r2
  have "posts (fst (publishContent ex_remote ex_tab_refused ex_world)) = posts ex_tab_refused"
    by simp
  moreover from b [THEN conjunct2, THEN conjunct2, THEN conjunct2, THEN conjunct2,
      THEN conjunct1] rs2 ko1
  have "posts (fst (snd (publishContent_resume ex_remote (AwaitCreatePost [0x78]) ex_tab_posting ex_world)))
     = posts ex_tab_posting"
    by simp
  ultimately show ?thesis using one ok ok1 ko1 idle vp r1 r2 mid fin by simp
qed

section \<open>The length of a submitted text\<close>

lemma ex_long_text_facts:
  "length ex_long_text = 301" "ex_long_text \<noteq> []" "ex_long_text \<noteq> [c]"
  by (auto simp: ex_long_text_def dest: arg_cong [where f = length])

text \<open>
  Claim C7 as stated (the core never submits a text of more than 300 characters: it
  truncates or rejects) fails.  On the sample service the command that posts a selected
  text, through \<open>createBlueskyPost\<close>, stores a record whose text has 301 code units, and
  \<open>createThread\<close> stores such a record as the root of a thread.
\<close>

theorem oversized_text_submitted_counterexample:
  "length ex_long_text = 301 \<and>
   fst (createBlueskyPost ex_remote ex_world ex_long_text) = Inr () \<and>
   map (length \<circ> post_text \<circ> fst)
     (accepted (submissions (issued ex_world (snd (createBlueskyPost ex_remote ex_world ex_long_text)))))
     = [301] \<and>
   fst (createThread ex_remote ex_world [ex_long_text, [0x62]]) = Inr () \<and>
   map (length \<circ> post_text \<circ> fst)
     (accepted (submissions (issued ex_world (snd (createThread ex_remote ex_world [ex_long_text, [0x62]])))))
     = [301, 1]"
  by (simp add: ex_defs createBlueskyPost_def ex_long_text_facts)

lemma createThread_texts:
  assumes run: "createThread env w texts = (res, w')"
  shows "map (post_text \<circ> fst) (submissions (issued w w')) =
           take (length (submissions (issued w w'))) texts"
proof (cases "texts = []")
  case True
  with run have "w' = w" by (simp add: createThread_empty)
  then show ?thesis by (simp add: issued_same)
next
  case False
  from createThread_events [OF run False] obtain acc tail where
    tr: "trace w' = trace w @ concat (map round_events acc) @ tail" and
    tx: "map (post_text \<circ> fst) acc = take (length acc) texts" and
    rs: "(case res of
        Inr u \<Rightarrow> tail = [Notice (js ''Successfully posted to Bluesky!'')] \<and>
                 length acc = length texts
      | Inl e \<Rightarrow> length acc < length texts \<and>
          (tail = [DetectFacets (texts ! length acc) (Inl e)] \<or>
           (\<exists>q f. tail = [DetectFacets (texts ! length acc) (Inr f), AgentPost q (Inl e)] \<and>
                  post_text q = texts ! length acc)))"
    by blast
  have subs: "submissions (issued w w') = map (\<lambda>(p, x). (p, Inr x)) acc @ submissions tail"
    using issued_append [OF tr] by (simp add: submissions_append submissions_rounds)
  have txs: "map (post_text \<circ> fst) (map (\<lambda>(p, x). (p, Inr x)) acc) = take (length acc) texts"
    using tx by (simp add: case_prod_beta comp_def)
  from rs consider
    (none) "submissions tail = []"
    | (refused) q e where "submissions tail = [(q, Inl e)]" "post_text q = texts ! length acc"
        "length acc < length texts"
    by (cases res) auto
  then show ?thesis
  proof cases
    case none
    then show ?thesis unfolding subs using txs by simp
  next
    case refused
    have "map (post_text \<circ> fst) (map (\<lambda>(p, x). (p, Inr x)) acc @ [(q, Inl e)]) =
            take (Suc (length acc)) texts"
      using txs refused by (simp only: map_append take_Suc_conv_app_nth) simp
    then show ?thesis unfolding subs refused by simp
  qed
qed

section \<open>The limit of the editor under every interleaving\<close>

lemma within_limit_iff:
  "within_limit t \<longleftrightarrow> (\<forall>x. Some x \<in> set (posts t) \<longrightarrow> length x \<le> MAX_CHARS)"
  by (auto simp: within_limit_def list_all_iff split: option.splits)

lemma within_limit_addPost: "within_limit t \<Longrightarrow> within_limit (addPost t)"
  by (auto simp: within_limit_iff addPost_def)

lemma within_limit_removePost: "within_limit t \<Longrightarrow> within_limit (removePost i t)"
  by (auto simp: within_limit_iff removePost_def splice1_def dest: in_set_takeD in_set_dropD)

lemma within_limit_handlePostChange: "within_limit t \<Longrightarrow> within_limit (handlePostChange i v t)"
proof -
  assume inv: "within_limit t"
  have "set (array_set (posts t) i (take MAX_CHARS v)) \<subseteq>
          insert (Some (take MAX_CHARS v)) (insert None (set (posts t)))"
  proof (cases "i < length (posts t)")
    case True
    then have "set (array_set (posts t) i (take MAX_CHARS v)) \<subseteq>
                 insert (Some (take MAX_CHARS v)) (set (posts t))"
      by (simp add: array_set_def set_update_subset_insert)
    then show ?thesis by auto
  next
    case False
    then show ?thesis by (auto simp: array_set_def)
  qed
  with inv show ?thesis
    by (auto simp: within_limit_iff handlePostChange_def)
qed

lemma within_limit_posts:
  "within_limit t \<Longrightarrow> posts t' = posts t \<or> posts t' = [Some []] \<Longrightarrow> within_limit t'"
  by (auto simp: within_limit_iff)

lemma limited_iff:
  "limited s \<longleftrightarrow>
     within_limit (ed_tab s) \<and>
     (\<forall>a \<in> set (in_flight s). \<forall>x \<in> set (pending_texts a). length x \<le> MAX_CHARS)"
  by (simp add: limited_def list_all_iff)

lemma step_limited:
  assumes inv: "limited s"
  shows "limited (step env s a) \<and>
         (\<exists>evs. trace (ed_world (step env s a)) = trace (ed_world s) @ evs \<and>
                (\<forall>q \<in> set (submissions evs). length (post_text (fst q)) \<le> MAX_CHARS))"
proof (cases a)
  case AddPost
  with inv show ?thesis by (simp add: limited_iff within_limit_addPost)
next
  case (RemovePost i)
  with inv show ?thesis by (simp add: limited_iff within_limit_removePost)
next
  case (HandlePostChange i v)
  with inv show ?thesis by (simp add: limited_iff within_limit_handlePostChange)
next
  case PublishContent
  show ?thesis
  proof (cases "isPosting (ed_tab s)")
    case True
    with inv PublishContent show ?thesis
      by (simp add: limited_iff publishContent_begin_def)
  next
    case False
    show ?thesis
    proof (cases "validPosts (posts (ed_tab s))")
      case Nil
      with inv PublishContent False show ?thesis
        by (simp add: limited_iff publishContent_begin_def)
    next
      case (Cons p ps)
      have "\<forall>x \<in> set (p # ps). length x \<le> MAX_CHARS"
      proof
        fix x assume "x \<in> set (p # ps)"
        with Cons have "x \<in> set (validPosts (posts (ed_tab s)))" by simp
        then have "Some x \<in> set (posts (ed_tab s))" by (simp add: validPosts_nonblank)
        with inv show "length x \<le> MAX_CHARS" by (simp add: limited_iff within_limit_iff)
      qed
      moreover have "within_limit ((ed_tab s)\<lparr>isPosting := True\<rparr>)"
        using inv by (simp add: limited_iff within_limit_iff)
      ultimately show ?thesis
        using inv PublishContent False Cons
        by (simp add: limited_iff publishContent_begin_def)
    qed
  qed
next
  case (Settle k)
  show ?thesis
  proof (cases "k < length (in_flight s)")
    case False
    with inv Settle show ?thesis by simp
  next
    case True
    define a0 where "a0 = in_flight s ! k"
    from True have mem: "a0 \<in> set (in_flight s)" by (simp add: a0_def)
    with inv have old: "\<forall>x \<in> set (pending_texts a0). length x \<le> MAX_CHARS"
      by (simp add: limited_iff)
    obtain a' t' w' where rs: "publishContent_resume env a0 (ed_tab s) (ed_world s) = (a', t', w')"
      by (cases "publishContent_resume env a0 (ed_tab s) (ed_world s)") auto
    from publishContent_resume_trace [OF rs] obtain evs where
      tr: "trace w' = trace (ed_world s) @ evs" and
      sub: "\<forall>q \<in> set (submissions evs). post_text (fst q) \<in> set (pending_texts a0)" and
      nx: "(case a' of
              Some b \<Rightarrow> set (pending_texts b) \<subseteq> set (pending_texts a0) \<and> posts t' = posts (ed_tab s) \<and>
                        isPosting t' = isPosting (ed_tab s)
            | None \<Rightarrow> \<not> isPosting t' \<and>
                (posts t' = posts (ed_tab s) \<and> (\<exists>e. last evs = ConsoleError (js ''Failed to post:'') e) \<or>
                 posts t' = [Some []] \<and> last evs = Notice (js ''Successfully posted to Bluesky!'')))"
      by blast
    from nx have "posts t' = posts (ed_tab s) \<or> posts t' = [Some []]"
      by (cases a') auto
    with inv have wl: "within_limit t'"
      by (auto simp: limited_iff intro: within_limit_posts)
    from sub old have short: "\<forall>q \<in> set (submissions evs). length (post_text (fst q)) \<le> MAX_CHARS"
      by blast
    show ?thesis
    proof (cases a')
      case None
      have "set (splice1 (in_flight s) k) \<subseteq> set (in_flight s)"
        by (auto simp: splice1_def dest: in_set_takeD in_set_dropD)
      with inv have "\<forall>a \<in> set (splice1 (in_flight s) k). \<forall>x \<in> set (pending_texts a). length x \<le> MAX_CHARS"
        by (auto simp: limited_iff)
      with Settle True rs None wl tr short show ?thesis
        by (simp add: limited_iff a0_def)
    next
      case (Some b)
      with nx old have nb: "\<forall>x \<in> set (pending_texts b). length x \<le> MAX_CHARS"
        by auto
      have "set ((in_flight s)[k := b]) \<subseteq> insert b (set (in_flight s))"
        by (rule set_update_subset_insert)
      with inv nb have "\<forall>a \<in> set ((in_flight s)[k := b]). \<forall>x \<in> set (pending_texts a). length x \<le> MAX_CHARS"
        by (auto simp: limited_iff)
      with Settle True rs Some wl tr short show ?thesis
        by (simp add: limited_iff a0_def)
    qed
  qed
qed

lemma run_limited:
  "limited s \<Longrightarrow>
   limited (run env s acts) \<and>
   (\<exists>evs. trace (ed_world (run env s acts)) = trace (ed_world s) @ evs \<and>
          (\<forall>q \<in> set (submissions evs). length (post_text (fst q)) \<le> MAX_CHARS))"
proof (induction acts arbitrary: s)
  case Nil
  then show ?case by (simp add: run_def)
next
  case (Cons a acts)
  from step_limited [OF Cons.prems, of env a] obtain evs1 where
    l1: "limited (step env s a)" and
    t1: "trace (ed_world (step env s a)) = trace (ed_world s) @ evs1" and
    s1: "\<forall>q \<in> set (submissions evs1). length (post_text (fst q)) \<le> MAX_CHARS"
    by blast
  from Cons.IH [OF l1] obtain evs2 where
    l2: "limited (run env (step env s a) acts)" and
    t2: "trace (ed_world (run env (step env s a) acts)) = trace (ed_world (step env s a)) @ evs2" and
    s2: "\<forall>q \<in> set (submissions evs2). length (post_text (fst q)) \<le> MAX_CHARS"
    by blast
  have unfold: "run env s (a # acts) = run env (step env s a) acts"
    by (simp add: run_def)
  from s1 s2 have "\<forall>q \<in> set (submissions (evs1 @ evs2)). length (post_text (fst q)) \<le> MAX_CHARS"
    by (auto simp: submissions_append)
  with l2 t1 t2 show ?case
    unfolding unfold by (intro conjI exI [of _ "evs1 @ evs2"]) simp_all
qed

lemma createPost_live:
  assumes live: "session_did b = Some did" "did \<noteq> []"
    and cp: "createPost env b w tx = (res, w')"
  shows "\<exists>r out. submissions (issued w w') = [(r, out)] \<and> post_text r = tx \<and> isl out = isl res"
proof -
  from createPost_events [OF cp] obtain evs where
    tr: "trace w' = trace w @ evs" and
    rs: "(case res of
              Inr u \<Rightarrow>
                (\<exists>d c r x. evs = [CreateRecord d c r (Inr x),
                                  Notice (js ''Successfully posted to Bluesky!'')] \<and>
                           post_text r = tx \<and> reply r = None)
            | Inl e \<Rightarrow>
                evs = [ConsoleError (js ''Failed to post:'') e,
                       Notice (js ''Failed to post: '' @ message e)] \<and>
                (session_did b = None \<or> session_did b = Some []) \<or>
                (\<exists>d c r. evs = [CreateRecord d c r (Inl e),
                                ConsoleError (js ''Failed to post:'') e,
                                Notice (js ''Failed to post: '' @ message e)] \<and>
                         post_text r = tx \<and> reply r = None \<and> session_did b = Some d \<and> d \<noteq> []))"
    by blast
  have iss: "issued w w' = evs" using tr by (rule issued_append)
  show ?thesis
  proof (cases res)
    case (Inr u)
    with rs obtain d c r x where
      "evs = [CreateRecord d c r (Inr x), Notice (js ''Successfully posted to Bluesky!'')]"
      "post_text r = tx"
      by auto
    with Inr iss show ?thesis
      by (intro exI [of _ r] exI [of _ "Inr x"]) simp
  next
    case (Inl e)
    with rs live obtain d c r where
      "evs = [CreateRecord d c r (Inl e), ConsoleError (js ''Failed to post:'') e,
              Notice (js ''Failed to post: '' @ message e)]"
      "post_text r = tx"
      by auto
    with Inl iss show ?thesis
      by (intro exI [of _ r] exI [of _ "Inl e"]) simp
  qed
qed

lemma createThread_only_remote_failures:
  assumes run: "createThread env w texts = (res, w')"
    and det: "\<forall>d \<in> set (detections (issued w w')). \<not> isl (snd d)"
    and sub: "\<forall>q \<in> set (submissions (issued w w')). \<not> isl (snd q)"
  shows "res = Inr () \<and> map (post_text \<circ> fst) (submissions (issued w w')) = texts"
proof (cases "texts = []")
  case True
  with run show ?thesis by (simp add: createThread_empty issued_same)
next
  case False
  from createThread_events [OF run False] obtain acc tail where
    tr: "trace w' = trace w @ concat (map round_events acc) @ tail" and
    tx: "map (post_text \<circ> fst) acc = take (length acc) texts" and
    rs: "(case res of
        Inr u \<Rightarrow> tail = [Notice (js ''Successfully posted to Bluesky!'')] \<and>
                 length acc = length texts
      | Inl e \<Rightarrow> length acc < length texts \<and>
          (tail = [DetectFacets (texts ! length acc) (Inl e)] \<or>
           (\<exists>p f. tail = [DetectFacets (texts ! length acc) (Inr f), AgentPost p (Inl e)] \<and>
                  post_text p = texts ! length acc)))"
    by blast
  have iss: "issued w w' = concat (map round_events acc) @ tail"
    using issued_append [OF tr] by simp
  show ?thesis
  proof (cases res)
    case (Inl e)
    with rs consider "tail = [DetectFacets (texts ! length acc) (Inl e)]"
      | p f where "tail = [DetectFacets (texts ! length acc) (Inr f), AgentPost p (Inl e)]"
      by auto
    then have False
    proof cases
      case 1
      then have "(texts ! length acc, Inl e) \<in> set (detections (issued w w'))"
        by (simp add: iss detections_append)
      with det show False by force
    next
      case 2
      then have "(p, Inl e) \<in> set (submissions (issued w w'))"
        by (simp add: iss submissions_append)
      with sub show False by force
    qed
    then show ?thesis ..
  next
    case (Inr u)
    with rs have "tail = [Notice (js ''Successfully posted to Bluesky!'')]"
      "length acc = length texts" by simp_all
    with tx Inr show ?thesis
      by (simp add: iss submissions_append submissions_rounds case_prod_beta comp_def)
  qed
qed

text \<open>
  Claim C7, amended.  The publishing core neither truncates nor rejects.  With a session in
  the agent, \<open>createPost\<close> submits exactly one record, which carries the text given whatever
  its length, and it fails exactly when the remote service refuses the record.
  \<open>createThread\<close> submits the texts given, unchanged and in order, and when the remote
  service refuses no detection and no submission it returns normally with every text
  submitted.  The limit is the editor's alone: \<open>handlePostChange\<close> stores the first 300
  code units of the value of the text area, so every text submitted in a run of the
  editor from its initial state has at most 300 code units, however the actions of the
  editor interleave with the publications that are pending.
\<close>

theorem core_submits_text_unchanged:
  fixes env :: "'f remote"
  shows
  "(session_did b = Some did \<and> did \<noteq> [] \<and> createPost env b w tx = (res, wp) \<longrightarrow>
      (\<exists>r out. submissions (issued w wp) = [(r, out)] \<and> post_text r = tx \<and> isl out = isl res)) \<and>
   (createThread env w texts = (res', wt) \<longrightarrow>
      map (post_text \<circ> fst) (submissions (issued w wt)) =
        take (length (submissions (issued w wt))) texts) \<and>
   (createThread env w texts = (res', wt) \<and>
    (\<forall>d \<in> set (detections (issued w wt)). \<not> isl (snd d)) \<and>
    (\<forall>q \<in> set (submissions (issued w wt)). \<not> isl (snd q)) \<longrightarrow>
      res' = Inr () \<and> map (post_text \<circ> fst) (submissions (issued w wt)) = texts) \<and>
   posts (handlePostChange i v t) = array_set (posts t) i (take 300 v) \<and>
   array_set (posts t) i (take 300 v) ! i = Some (take 300 v) \<and>
   (\<forall>q \<in> set (submissions (issued w0 (ed_world (run env (new_editor w0) acts)))).
      length (post_text (fst q)) \<le> 300)"
proof (intro conjI impI)
  assume "session_did b = Some did \<and> did \<noteq> [] \<and> createPost env b w tx = (res, wp)"
  then have "session_did b = Some did" "did \<noteq> []" "createPost env b w tx = (res, wp)"
    by simp_all
  then show "\<exists>r out. submissions (issued w wp) = [(r, out)] \<and> post_text r = tx \<and> isl out = isl res"
    by (rule createPost_live)
next
  assume "createThread env w texts = (res', wt)"
  then show "map (post_text \<circ> fst) (submissions (issued w wt)) =
        take (length (submissions (issued w wt))) texts"
    by (rule createThread_texts)
next
  assume a: "createThread env w texts = (res', wt) \<and>
    (\<forall>d \<in> set (detections (issued w wt)). \<not> isl (snd d)) \<and>
    (\<forall>q \<in> set (submissions (issued w wt)). \<not> isl (snd q))"
  then have "createThread env w texts = (res', wt)"
    "\<forall>d \<in> set (detections (issued w wt)). \<not> isl (snd d)"
    "\<forall>q \<in> set (submissions (issued w wt)). \<not> isl (snd q)"
    by simp_all
  then have all: "res' = Inr () \<and> map (post_text \<circ> fst) (submissions (issued w wt)) = texts"
    by (rule createThread_only_remote_failures)
  from all show "res' = Inr ()" ..
  from all show "map (post_text \<circ> fst) (submissions (issued w wt)) = texts" ..
next
  show "posts (handlePostChange i v t) = array_set (posts t) i (take 300 v)"
    by (simp add: handlePostChange_def MAX_CHARS_def)
next
  show "array_set (posts t) i (take 300 v) ! i = Some (take 300 v)"
    by (rule array_set_nth)
next
  have "limited (new_editor w0 :: 'f editor)"
    by (simp add: limited_def within_limit_def new_editor_def new_BlueskyTab_def)
  from run_limited [OF this, of env acts] obtain evs where
    "trace (ed_world (run env (new_editor w0) acts)) = trace (ed_world (new_editor w0 :: 'f editor)) @ evs"
    "\<forall>q \<in> set (submissions evs). length (post_text (fst q)) \<le> MAX_CHARS"
    by blast
  moreover have "ed_world (new_editor w0 :: 'f editor) = w0"
    by (simp add: new_editor_def)
  ultimately show "\<forall>q \<in> set (submissions (issued w0 (ed_world (run env (new_editor w0) acts)))).
      length (post_text (fst q)) \<le> 300"
    by (simp add: issued_def MAX_CHARS_def)
qed

lemma ex_long_text_limited:
  "take 300 ex_long_text = replicate 300 0x61"
  "trim (replicate 300 0x61) = replicate 300 0x61"
  "replicate 300 (0x61 :: 16 word) \<noteq> []"
  "replicate 300 (0x61 :: 16 word) \<noteq> [c]"
  "length (replicate 300 (0x61 :: 16 word)) = 300"
  by (auto simp: ex_long_text_def trim_def isWhiteSpace_def dropWhile_replicate
           dest: arg_cong [where f = length])

theorem core_submits_text_unchanged_witness:
  "session_did ex_bot = Some [0x64, 0x69, 0x64] \<and>
   fst (createPost ex_remote ex_bot ex_world ex_long_text) = Inr () \<and>
   map (post_text \<circ> fst)
     (submissions (issued ex_world (snd (createPost ex_remote ex_bot ex_world ex_long_text))))
     = [ex_long_text] \<and>
   map snd (detections (issued ex_world (snd (createThread ex_remote ex_world [ex_long_text, [0x62]]))))
     = [Inr 301, Inr 1] \<and>
   fst (createThread ex_remote ex_world [ex_long_text, [0x62]]) = Inr () \<and>
   map (post_text \<circ> fst)
     (submissions (issued ex_world (snd (createThread ex_remote ex_world [ex_long_text, [0x62]]))))
     = [ex_long_text, [0x62]] \<and>
   posts (handlePostChange 0 ex_long_text new_BlueskyTab) = [Some (take 300 ex_long_text)] \<and>
   map (length \<circ> post_text \<circ> fst)
     (submissions (issued ex_world (ed_world (run ex_remote (new_editor ex_world) ex_long_actions))))
     = [300]"
proof -
  have live: "session_did ex_bot = Some [0x64, 0x69, 0x64]" "[0x64, 0x69, 0x64] \<noteq> ([] :: jsstring)"
    by (simp_all add: ex_bot_def)
  have cp: "createPost ex_remote ex_bot ex_world ex_long_text =
              (fst (createPost ex_remote ex_bot ex_world ex_long_text),
               snd (createPost ex_remote ex_bot ex_world ex_long_text))"
    by simp
  have ct: "createThread ex_remote ex_world [ex_long_text, [0x62]] =
              (fst (createThread ex_remote ex_world [ex_long_text, [0x62]]),
               snd (createThread ex_remote ex_world [ex_long_text, [0x62]]))"
    by simp
  have dets: "map snd (detections (issued ex_world (snd (createThread ex_remote ex_world [ex_long_text, [0x62]]))))
     = [Inr 301, Inr 1]"
    by (simp add: ex_defs ex_long_text_facts)
  have outs: "map snd (submissions (issued ex_world (snd (createThread ex_remote ex_world [ex_long_text, [0x62]]))))
     = [Inr \<lparr>uri = ex_long_text, cid = [0x63]\<rparr>, Inr \<lparr>uri = [0x62], cid = [0x63]\<rparr>]"
    by (simp add: ex_defs ex_long_text_facts)
  have det: "\<forall>d \<in> set (detections (issued ex_world (snd (createThread ex_remote ex_world [ex_long_text, [0x62]])))).
      \<not> isl (snd d)"
  proof
    fix d assume "d \<in> set (detections (issued ex_world (snd (createThread ex_remote ex_world [ex_long_text, [0x62]]))))"
    then have "snd d \<in> set (map snd (detections (issued ex_world (snd (createThread ex_remote ex_world [ex_long_text, [0x62]])))))"
      by simp
    then show "\<not> isl (snd d)" unfolding dets by auto
  qed
  have sub: "\<forall>q \<in> set (submissions (issued ex_world (snd (createThread ex_remote ex_world [ex_long_text, [0x62]])))).
      \<not> isl (snd q)"
  proof
    fix q assume "q \<in> set (submissions (issued ex_world (snd (createThread ex_remote ex_world [ex_long_text, [0x62]]))))"
    then have "snd q \<in> set (map snd (submissions (issued ex_world (snd (createThread ex_remote ex_world [ex_long_text, [0x62]])))))"
      by simp
    then show "\<not> isl (snd q)" unfolding outs by auto
  qed
  have edited: "posts (handlePostChange 0 ex_long_text new_BlueskyTab) = [Some (take 300 ex_long_text)]"
    by (simp add: handlePostChange_def array_set_def new_BlueskyTab_def MAX_CHARS_def)
  have ok: "fst (createPost ex_remote ex_bot ex_world ex_long_text) = Inr ()"
    by (simp add: ex_defs ex_long_text_facts)
  have n3: "map (post_text \<circ> fst)
     (submissions (issued ex_world (ed_world (run ex_remote (new_editor ex_world) ex_long_actions))))
        = [replicate 300 0x61]"
    by (simp add: run_def new_editor_def new_BlueskyTab_def ex_long_actions_def
          handlePostChange_def array_set_def splice1_def MAX_CHARS_def
          publishContent_begin_def publishContent_failed_def publishContent_done_def
          ex_long_text_limited ex_defs)
  note inst = core_submits_text_unchanged [where b = ex_bot and did = "[0x64, 0x69, 0x64]"
      and env = ex_remote and w = ex_world and tx = ex_long_text
      and res = "fst (createPost ex_remote ex_bot ex_world ex_long_text)"
      and wp = "snd (createPost ex_remote ex_bot ex_world ex_long_text)"
      and texts = "[ex_long_text, [0x62]]"
      and res' = "fst (createThread ex_remote ex_world [ex_long_text, [0x62]])"
      and wt = "snd (createThread ex_remote ex_world [ex_long_text, [0x62]])"
      and t = new_BlueskyTab and i = 0 and v = ex_long_text
      and ?w0.0 = ex_world and acts = ex_long_actions]
  from inst [THEN conjunct1] live cp
  have "\<exists>r out. submissions (issued ex_world (snd (createPost ex_remote ex_bot ex_world ex_long_text)))
          = [(r, out)] \<and> post_text r = ex_long_text
          \<and> isl out = isl (fst (createPost ex_remote ex_bot ex_world ex_long_text))"
    by blast
  then have first: "map (post_text \<circ> fst)
     (submissions (issued ex_world (snd (createPost ex_remote ex_bot ex_world ex_long_text))))
     = [ex_long_text]"
    by auto
  from inst [THEN conjunct2, THEN conjunct2, THEN conjunct1] ct det sub
  have second: "fst (createThread ex_remote ex_world [ex_long_text, [0x62]]) = Inr () \<and>
     map (post_text \<circ> fst)
       (submissions (issued ex_world (snd (createThread ex_remote ex_world [ex_long_text, [0x62]]))))
       = [ex_long_text, [0x62]]"
    by blast
  have third: "map (length \<circ> post_text \<circ> fst)
     (submissions (issued ex_world (ed_world (run ex_remote (new_editor ex_world) ex_long_actions))))
     = [300]"
    using n3 [THEN arg_cong, of "map length"] by (simp add: ex_long_text_limited comp_assoc)
  from first second edited third live ok dets show ?thesis by simp
qed

end
